theory Spec2Isabelle
  imports Complex_Main "HOL-Library.Sublist" "HOL-Library.Product_Lexorder" "HOL-Library.Log_Nat"
begin

section \<open>Response analyzer (src/wordDetector.js)\<close>

text \<open>
  JavaScript strings are modelled as \<^typ>\<open>string\<close>, one \<^typ>\<open>char\<close> per code unit, read
  through its code \<open>of_char c\<close>. Only code units below 256 exist in this model. The
  classes used by the source's regular expressions are then:
  \<^item> \<open>\w\<close> is \<open>[A-Za-z0-9_]\<close>;
  \<^item> \<open>\s\<close> is tab, line feed, vertical tab, form feed, carriage return, space and the
    no-break space (code 160), the white space of ECMAScript below 256;
  \<^item> \<open>toLowerCase\<close> maps \<open>A-Z\<close> to \<open>a-z\<close>. The accented capitals of Latin-1 are not
    \<open>\w\<close> and are replaced by a space in the next step whatever their case, so their
    case mapping is left out.
\<close>

definition isWordChar :: "char \<Rightarrow> bool" where
  "isWordChar c =
     (let n = (of_char c :: nat)
      in (48 \<le> n \<and> n \<le> 57) \<or> (65 \<le> n \<and> n \<le> 90) \<or> n = 95 \<or> (97 \<le> n \<and> n \<le> 122))"

definition isSpaceChar :: "char \<Rightarrow> bool" where
  "isSpaceChar c =
     (let n = (of_char c :: nat)
      in (9 \<le> n \<and> n \<le> 13) \<or> n = 32 \<or> n = 160)"

definition toLowerChar :: "char \<Rightarrow> char" where
  "toLowerChar c =
     (let n = (of_char c :: nat)
      in if 65 \<le> n \<and> n \<le> 90 then char_of (n + 32) else c)"

definition toLowerCase :: "string \<Rightarrow> string" where
  "toLowerCase s = map toLowerChar s"

text \<open>\<open>.replace(/[^\w\s]/g, ' ')\<close>: every character that is neither \<open>\w\<close> nor \<open>\s\<close>
  becomes one space.\<close>

definition isPunctChar :: "char \<Rightarrow> bool" where
  "isPunctChar c = (\<not> isWordChar c \<and> \<not> isSpaceChar c)"

definition replacePunct :: "string \<Rightarrow> string" where
  "replacePunct s = map (\<lambda>c. if isPunctChar c then CHR '' '' else c) s"

text \<open>\<open>.replace(/\s+/g, ' ')\<close>: every maximal run of white space becomes one space.
  The flag says whether the previous character belonged to a run already replaced.\<close>

primrec collapseFrom :: "bool \<Rightarrow> string \<Rightarrow> string" where
  "collapseFrom inRun [] = []"
| "collapseFrom inRun (c # cs) =
     (if isSpaceChar c
      then (if inRun then collapseFrom True cs else CHR '' '' # collapseFrom True cs)
      else c # collapseFrom False cs)"

definition collapseSpaces :: "string \<Rightarrow> string" where
  "collapseSpaces s = collapseFrom False s"

text \<open>\<open>.trim()\<close>: white space removed at both ends.\<close>

definition trim :: "string \<Rightarrow> string" where
  "trim s = rev (dropWhile isSpaceChar (rev (dropWhile isSpaceChar s)))"

text \<open>The arguments of the analyzer are arbitrary JavaScript values: the source tests
  \<open>!text || typeof text !== 'string'\<close>. Values that are not strings are kept apart only as
  far as that test sees them.\<close>

datatype jsval =
    JUndefined
  | JNull
  | JBool bool
  | JNumber real
  | JString string
  | JObject

definition normalizeString :: "string \<Rightarrow> string" where
  "normalizeString s = trim (collapseSpaces (replacePunct (toLowerCase s)))"

fun normalizeText :: "jsval \<Rightarrow> string" where
  "normalizeText (JString s) = (if s = [] then [] else normalizeString s)"
| "normalizeText _ = []"

text \<open>\<open>escapeRegex\<close>: a backslash is put before each of \<open>. * + ? ^ $ { } ( ) | [ ] \\<close>.\<close>

definition isRegexSpecial :: "char \<Rightarrow> bool" where
  "isRegexSpecial c = (c \<in> set ''.*+?^${}()|[]'' \<or> c = CHR 0x5C)"

definition escapeRegex :: "string \<Rightarrow> string" where
  "escapeRegex s = concat (map (\<lambda>c. if isRegexSpecial c then [CHR 0x5C, c] else [c]) s)"

text \<open>
  \<open>new RegExp(`\\b${W}\\b|${W}`, 'i').test(t)\<close> with \<open>W = escapeRegex(normalizedWord)\<close>.
  After escaping, \<open>W\<close> matches the word literally, so the pattern has two alternatives
  tried at every start position of \<open>t\<close>: the word between two \<open>\b\<close> assertions, or the
  word alone. The flag \<open>i\<close> compares characters up to case. \<open>\b\<close> holds at a position
  when exactly one of the characters before and after it is a \<open>\w\<close> character (a missing
  character at either end of the text counts as not \<open>\w\<close>).
\<close>

definition literalAt :: "string \<Rightarrow> string \<Rightarrow> nat \<Rightarrow> bool" where
  "literalAt w t i =
     (i + length w \<le> length t \<and> toLowerCase (take (length w) (drop i t)) = toLowerCase w)"

definition wordBoundary :: "string \<Rightarrow> nat \<Rightarrow> bool" where
  "wordBoundary t i =
     ((0 < i \<and> i \<le> length t \<and> isWordChar (t ! (i - 1))) \<noteq> (i < length t \<and> isWordChar (t ! i)))"

definition wholeWordAt :: "string \<Rightarrow> string \<Rightarrow> nat \<Rightarrow> bool" where
  "wholeWordAt w t i = (wordBoundary t i \<and> literalAt w t i \<and> wordBoundary t (i + length w))"

definition regexTest :: "string \<Rightarrow> string \<Rightarrow> bool" where
  "regexTest w t = list_ex (\<lambda>i. wholeWordAt w t i \<or> literalAt w t i) [0..<Suc (length t)]"

definition containsWord :: "jsval \<Rightarrow> jsval \<Rightarrow> bool" where
  "containsWord text word =
     (let normalized = normalizeText text;
          normalizedWord = normalizeText word
      in if normalizedWord = [] then False
         else regexTest normalizedWord normalized)"

datatype verdict = Safe | Escalate | Unknown

definition analyzeResponse :: "jsval \<Rightarrow> jsval \<Rightarrow> jsval \<Rightarrow> verdict" where
  "analyzeResponse transcription safeWord escalationWord =
     (let normalized = normalizeText transcription
      in if containsWord (JString normalized) escalationWord then Escalate
         else if containsWord (JString normalized) safeWord then Safe
         else Unknown)"


section \<open>JavaScript numbers\<close>

text \<open>
  A JavaScript number that is not \<open>NaN\<close> is a double: a rational number or an infinity.
  \<open>toDouble x\<close> is the double that a decimal numeral of value \<open>x\<close> denotes, as
  \<open>JSON.parse\<close>, \<open>parseFloat\<close> and the compiler read it: \<open>x\<close> rounded to the nearest
  number with a 53-bit significand, ties to the even significand, with the subnormal
  numbers below \<open>2^-1022\<close>, and infinity when the rounded value reaches \<open>2^1024\<close>.
  \<open>jsGe\<close> is \<open>>=\<close> on such numbers.
\<close>

datatype jsnum = Finite rat | PosInfinity | NegInfinity

definition pow2 :: "int \<Rightarrow> rat" where
  "pow2 d = (if 0 \<le> d then 2 ^ nat d else 1 / 2 ^ nat (- d))"

definition floorLog2 :: "rat \<Rightarrow> int" where
  "floorLog2 x =
     (case quotient_of x of
        (p, q) \<Rightarrow> (let d = bitlen p - bitlen q in if pow2 d \<le> x then d else d - 1))"

definition roundHalfEven :: "rat \<Rightarrow> int" where
  "roundHalfEven y =
     (let f = \<lfloor>y\<rfloor>; r = y - of_int f
      in if r < 1 / 2 then f else if 1 / 2 < r then f + 1 else if even f then f else f + 1)"

definition roundPositive :: "rat \<Rightarrow> jsnum" where
  "roundPositive x =
     (let e = max (floorLog2 x) (- 1022);
          ulp = pow2 (e - 52);
          m = roundHalfEven (x / ulp)
      in if 1023 < e \<or> (e = 1023 \<and> 2 ^ 53 \<le> m) then PosInfinity
         else Finite (of_int m * ulp))"

definition toDouble :: "rat \<Rightarrow> jsnum" where
  "toDouble x =
     (if x = 0 then Finite 0
      else if 0 < x then roundPositive x
      else (case roundPositive (- x) of
              Finite v \<Rightarrow> Finite (- v)
            | PosInfinity \<Rightarrow> NegInfinity
            | NegInfinity \<Rightarrow> PosInfinity))"

fun jsGe :: "jsnum \<Rightarrow> jsnum \<Rightarrow> bool" where
  "jsGe PosInfinity _ = True"
| "jsGe _ NegInfinity = True"
| "jsGe (Finite a) (Finite b) = (b \<le> a)"
| "jsGe _ _ = False"

section \<open>Store (src/schema.sql and the database helpers)\<close>

text \<open>
  The three tables are lists of rows in insertion order (the order of \<open>rowid\<close>).
  Timestamps are natural numbers (milliseconds); one handler run reads the clock as the
  constant \<open>now\<close> of its environment. Every write to the store and every request to an
  outside service is also appended to \<open>trace\<close>, which records the order in which the
  program performed them; the program itself never reads it. The column \<open>is_primary\<close>
  (0 or 1) is a boolean, and \<open>isRunning\<close> is the scheduler module's variable of that
  name.
\<close>

datatype status = Pending | Active | Completed | Escalated | Cancelled

record session =
  sess_id :: string
  user_phone :: string
  safe_word :: string
  escalation_word :: string
  location :: "string option"
  scheduled_at :: nat
  status :: status
  created_at :: nat
  updated_at :: nat

record contact =
  session_id :: string
  phone_number :: string
  is_primary :: bool
  display_order :: nat

datatype pval = PStr string | PBool bool | PNum jsnum | PTime nat | PNull

datatype event = Event (ev_session: string) (ev_type: string) (ev_payload: "(string \<times> pval) list")

datatype effect =
    StatusWrite string status
  | LocationWrite string string
  | EventWrite event
  | SmsAttempt string string
  | CheckInCallAttempt string string
  | EmergencyCallAttempt string string string
  | WhisperAttempt string
  | ClassifyAttempt string

record world =
  sessions :: "session list"
  contacts :: "contact list"
  event_log :: "event list"
  isRunning :: bool
  trace :: "effect list"

text \<open>What the outside services answer. A request either throws (\<open>Inl\<close> with the
  error's message) or returns (\<open>Inr\<close>); within one handler run the answer is a function
  of the request's arguments. The score of the classifier's answer is the value of the
  decimal numeral written there (\<open>ScoreNumber\<close>) or, when the field is not a number, what
  \<open>parseFloat\<close> reads from it: a decimal numeral, an infinity (\<open>True\<close> for the positive
  one), or nothing. \<open>isMobilePhone\<close> is the validation library's test.\<close>

datatype score_field =
    ScoreNumber rat
  | ScoreParsed rat
  | ScoreParsedInfinity bool
  | ScoreNaN

datatype api_response = ApiThrows string | ApiNoContent | ApiJson score_field "string option"

record env =
  now :: nat
  baseUrl :: string
  uuid :: string
  isMobilePhone :: "string \<Rightarrow> bool"
  sendSMS_result :: "string \<Rightarrow> string \<Rightarrow> string + string"
  checkInCall_result :: "string \<Rightarrow> string \<Rightarrow> string + string"
  emergencyCall_result :: "string \<Rightarrow> string \<Rightarrow> string \<Rightarrow> string + string"
  transcribeAudio_result :: "string \<Rightarrow> string + string"
  openai_result :: "string \<Rightarrow> api_response"

text \<open>A request field that may be absent; \<open>truthy\<close> is JavaScript's test on it, and
  \<open>strOr a d\<close> is \<open>a || d\<close>.\<close>

fun truthy :: "string option \<Rightarrow> bool" where
  "truthy None = False"
| "truthy (Some s) = (s \<noteq> [])"

fun strOr :: "string option \<Rightarrow> string \<Rightarrow> string" where
  "strOr None d = d"
| "strOr (Some s) d = (if s = [] then d else s)"

definition optPval :: "string option \<Rightarrow> pval" where
  "optPval x = (case x of None \<Rightarrow> PNull | Some s \<Rightarrow> PStr s)"

text \<open>\<open>createSession\<close> inserts a row with status \<open>pending\<close>. The identifier is a fresh
  UUID, so the insertion never meets the primary key of an existing row. \<open>logEvent\<close> is
  only called by the handlers below for a session they have just read from the store, so
  the foreign key of \<open>event_log\<close> holds at every call; sessions are never deleted.\<close>

definition createSession ::
  "env \<Rightarrow> string \<Rightarrow> string \<Rightarrow> string \<Rightarrow> string \<Rightarrow> nat \<Rightarrow> string option \<Rightarrow> world \<Rightarrow> world" where
  "createSession e sid userPhone safeWord escalationWord scheduledAt loc w =
     w\<lparr>sessions := sessions w @
        [\<lparr>sess_id = sid, user_phone = userPhone, safe_word = safeWord,
          escalation_word = escalationWord, location = loc, scheduled_at = scheduledAt,
          status = Pending, created_at = now e, updated_at = now e\<rparr>]\<rparr>"

record contact_input =
  phone :: string
  isPrimary :: bool

definition addEmergencyContacts :: "string \<Rightarrow> contact_input list \<Rightarrow> world \<Rightarrow> world" where
  "addEmergencyContacts sid cs w =
     w\<lparr>contacts := contacts w @
        map (\<lambda>(i, c). \<lparr>session_id = sid, phone_number = phone c,
                        is_primary = isPrimary c, display_order = i\<rparr>)
            (enumerate 0 cs)\<rparr>"

definition getSession :: "world \<Rightarrow> string \<Rightarrow> session option" where
  "getSession w sid = find (\<lambda>s. sess_id s = sid) (sessions w)"

definition updateSessionStatus :: "env \<Rightarrow> string \<Rightarrow> status \<Rightarrow> world \<Rightarrow> world" where
  "updateSessionStatus e sid st w =
     w\<lparr>sessions := map (\<lambda>s. if sess_id s = sid then s\<lparr>status := st, updated_at := now e\<rparr> else s)
                       (sessions w),
       trace := trace w @ [StatusWrite sid st]\<rparr>"

definition updateSessionLocation :: "env \<Rightarrow> string \<Rightarrow> string \<Rightarrow> world \<Rightarrow> world" where
  "updateSessionLocation e sid loc w =
     w\<lparr>sessions := map (\<lambda>s. if sess_id s = sid then s\<lparr>location := Some loc, updated_at := now e\<rparr> else s)
                       (sessions w),
       trace := trace w @ [LocationWrite sid loc]\<rparr>"

definition logEvent :: "string \<Rightarrow> string \<Rightarrow> (string \<times> pval) list \<Rightarrow> world \<Rightarrow> world" where
  "logEvent sid eventType payload w =
     w\<lparr>event_log := event_log w @ [Event sid eventType payload],
       trace := trace w @ [EventWrite (Event sid eventType payload)]\<rparr>"

text \<open>\<open>LIMIT 1\<close> without \<open>ORDER BY\<close> is read as the first matching row in insertion
  order, which is what SQLite returns for this table.\<close>

definition getPrimaryContact :: "world \<Rightarrow> string \<Rightarrow> contact option" where
  "getPrimaryContact w sid =
     (case find (\<lambda>c. session_id c = sid \<and> is_primary c) (contacts w) of
        Some c \<Rightarrow> Some c
      | None \<Rightarrow>
          (case sort_key display_order (filter (\<lambda>c. session_id c = sid) (contacts w)) of
             [] \<Rightarrow> None
           | c # _ \<Rightarrow> Some c))"

text \<open>\<open>ORDER BY is_primary DESC, display_order\<close>: flagged rows first.\<close>

definition getEmergencyContacts :: "world \<Rightarrow> string \<Rightarrow> contact list" where
  "getEmergencyContacts w sid =
     sort_key (\<lambda>c. (\<not> is_primary c, display_order c))
       (filter (\<lambda>c. session_id c = sid) (contacts w))"

section \<open>Notification provider (src/twilio.js)\<close>

definition sendSMS :: "env \<Rightarrow> string \<Rightarrow> string \<Rightarrow> world \<Rightarrow> (string + string) \<times> world" where
  "sendSMS e toPhone message w =
     (sendSMS_result e toPhone message, w\<lparr>trace := trace w @ [SmsAttempt toPhone message]\<rparr>)"

definition initiateCheckInCall :: "env \<Rightarrow> string \<Rightarrow> string \<Rightarrow> world \<Rightarrow> (string + string) \<times> world" where
  "initiateCheckInCall e toPhone sid w =
     (checkInCall_result e toPhone sid, w\<lparr>trace := trace w @ [CheckInCallAttempt toPhone sid]\<rparr>)"

definition initiateEmergencyCall ::
  "env \<Rightarrow> string \<Rightarrow> string \<Rightarrow> string \<Rightarrow> world \<Rightarrow> (string + string) \<times> world" where
  "initiateEmergencyCall e toPhone sid userPhone w =
     (emergencyCall_result e toPhone sid userPhone,
      w\<lparr>trace := trace w @ [EmergencyCallAttempt toPhone sid userPhone]\<rparr>)"

section \<open>Distress classifier and transcription fallback (src/openai.js)\<close>

record classification =
  isDistressed :: bool
  score :: jsnum
  reason :: string

definition DISTRESS_THRESHOLD :: jsnum where
  "DISTRESS_THRESHOLD = toDouble (7 / 10)"

text \<open>\<open>ApiThrows\<close> stands for every exception inside the \<open>try\<close> block (the request
  failing, or the answer not parsing as a JSON object). The score and the threshold are
  doubles, compared as the source compares them.\<close>

definition classifyResult :: "env \<Rightarrow> string \<Rightarrow> classification" where
  "classifyResult e transcription =
     (if transcription = [] \<or> length (trim transcription) = 0
      then \<lparr>isDistressed = False, score = Finite 0, reason = ''Empty response''\<rparr>
      else
        (case openai_result e transcription of
           ApiThrows msg \<Rightarrow>
             \<lparr>isDistressed = False, score = Finite 0, reason = ''API error: '' @ msg\<rparr>
         | ApiNoContent \<Rightarrow>
             \<lparr>isDistressed = False, score = Finite 0, reason = ''No response from model''\<rparr>
         | ApiJson sf r \<Rightarrow>
             (let sc = (case sf of
                          ScoreNumber x \<Rightarrow> toDouble x
                        | ScoreParsed x \<Rightarrow> toDouble x
                        | ScoreParsedInfinity positive \<Rightarrow>
                            if positive then PosInfinity else NegInfinity
                        | ScoreNaN \<Rightarrow> Finite 0);
                  rs = strOr r ''Unknown''
              in \<lparr>isDistressed = jsGe sc DISTRESS_THRESHOLD, score = sc, reason = rs\<rparr>)))"

text \<open>\<open>classifyDistressIntent\<close> returns \<open>classifyResult\<close>; the request to the model, made
  unless the transcript is blank, is recorded in the trace.\<close>

definition classifyDistressIntent :: "env \<Rightarrow> string \<Rightarrow> world \<Rightarrow> classification \<times> world" where
  "classifyDistressIntent e transcription w =
     (classifyResult e transcription,
      if transcription = [] \<or> length (trim transcription) = 0 then w
      else w\<lparr>trace := trace w @ [ClassifyAttempt transcription]\<rparr>)"

definition transcribeAudio :: "env \<Rightarrow> string \<Rightarrow> world \<Rightarrow> (string + string) \<times> world" where
  "transcribeAudio e mediaUrl w =
     (transcribeAudio_result e mediaUrl, w\<lparr>trace := trace w @ [WhisperAttempt mediaUrl]\<rparr>)"


section \<open>Escalation ladder (src/escalation.js)\<close>

text \<open>The line feed, and the siren emoji of the message texts as its four UTF-8 bytes.\<close>

definition nl :: string where
  "nl = [CHR 0x0A]"

definition siren :: string where
  "siren = [CHR 0xF0, CHR 0x9F, CHR 0x9A, CHR 0xA8]"

definition userLocationSMS :: "env \<Rightarrow> string \<Rightarrow> string" where
  "userLocationSMS e sid =
     siren @ '' GUARDIAN AI has triggered an emergency alert for you.'' @ nl @ nl @
     ''Your emergency contacts have been notified.'' @ nl @ nl @
     ''Reply with your location or click to submit: '' @ baseUrl e @ ''/location?sessionId='' @ sid @
     nl @ nl @ ''Stay safe.''"

definition smsBody :: "string \<Rightarrow> string option \<Rightarrow> string" where
  "smsBody userPhone loc =
     (let locationText = (case loc of None \<Rightarrow> [] | Some l \<Rightarrow> nl @ nl @ ''Location: '' @ l)
      in siren @ '' GUARDIAN AI DISTRESS ALERT '' @ siren @ nl @ nl @
         ''We received an escalation signal from '' @ userPhone @ ''.'' @ nl @ nl @
         ''Please check on them immediately.'' @ locationText @ nl @ nl @
         ''This is an automated alert from Guardian AI.'')"

text \<open>Lines 49-60: the location request to the subject, with its own \<open>try/catch\<close>.\<close>

definition requestLocation :: "env \<Rightarrow> string \<Rightarrow> session \<Rightarrow> world \<Rightarrow> world" where
  "requestLocation e sid s w =
     (case sendSMS e (user_phone s) (userLocationSMS e sid) w of
        (Inr _, w1) \<Rightarrow> logEvent sid ''location_request_sms_sent'' [(''to'', PStr (user_phone s))] w1
      | (Inl err, w1) \<Rightarrow> logEvent sid ''location_request_sms_failed'' [(''error'', PStr err)] w1)"

text \<open>Lines 75-87: the body of the loop over the contacts (Level 1).\<close>

definition alertContact :: "env \<Rightarrow> string \<Rightarrow> string \<Rightarrow> contact \<Rightarrow> world \<Rightarrow> world" where
  "alertContact e sid body c w =
     (case sendSMS e (phone_number c) body w of
        (Inr _, w1) \<Rightarrow>
          logEvent sid ''sms_sent''
            [(''to'', PStr (phone_number c)), (''isPrimary'', PBool (is_primary c))] w1
      | (Inl err, w1) \<Rightarrow>
          logEvent sid ''sms_failed''
            [(''to'', PStr (phone_number c)), (''error'', PStr err)] w1)"

text \<open>Lines 90-110: the call to the primary contact (Level 2).\<close>

definition callPrimary :: "env \<Rightarrow> string \<Rightarrow> session \<Rightarrow> string option \<Rightarrow> world \<Rightarrow> world" where
  "callPrimary e sid s loc w =
     (case getPrimaryContact w sid of
        None \<Rightarrow> w
      | Some primary \<Rightarrow>
          (case initiateEmergencyCall e (phone_number primary) sid (user_phone s) w of
             (Inr _, w1) \<Rightarrow>
               logEvent sid ''emergency_call_initiated''
                 [(''to'', PStr (phone_number primary)), (''location'', optPval loc)] w1
           | (Inl err, w1) \<Rightarrow>
               logEvent sid ''emergency_call_failed''
                 [(''to'', PStr (phone_number primary)), (''error'', PStr err)] w1))"

definition triggerEscalation :: "env \<Rightarrow> string \<Rightarrow> world \<Rightarrow> world" where
  "triggerEscalation e sid w =
     (case getSession w sid of
        None \<Rightarrow> w
      | Some s \<Rightarrow>
          (let w1 = updateSessionStatus e sid Escalated w;
               loc = (case location s of None \<Rightarrow> None | Some l \<Rightarrow> if l = [] then None else Some l);
               w2 = logEvent sid ''escalation_triggered''
                      [(''userPhone'', PStr (user_phone s)), (''location'', optPval loc),
                       (''timestamp'', PTime (now e))] w1;
               w3 = requestLocation e sid s w2;
               cs = getEmergencyContacts w3 sid;
               w4 = fold (alertContact e sid (smsBody (user_phone s) loc)) cs w3
           in callPrimary e sid s loc w4))"

section \<open>Provider callbacks (src/webhooks.js)\<close>

record recording_request =
  query_sessionId :: "string option"
  body_TranscriptionText :: "string option"
  body_transcriptionText :: "string option"
  body_RecordingSid :: "string option"
  body_RecordingUrl :: "string option"
  body_RecordingDuration :: "string option"
  body_TranscriptionStatus :: "string option"

text \<open>Lines 201-211: the fallback transcription; it returns the transcript to use.\<close>

definition whisperFallback :: "env \<Rightarrow> string \<Rightarrow> string \<Rightarrow> string \<Rightarrow> world \<Rightarrow> string \<times> world" where
  "whisperFallback e sid transcriptionText recordingUrl w =
     (case transcribeAudio e recordingUrl w of
        (Inr text, w1) \<Rightarrow> (text, logEvent sid ''whisper_transcription'' [(''text'', PStr text)] w1)
      | (Inl err, w1) \<Rightarrow>
          (transcriptionText, logEvent sid ''whisper_transcription_failed'' [(''error'', PStr err)] w1))"

text \<open>Lines 241-255: the classifier path of an \<open>unknown\<close> verdict.\<close>

definition classifyAndDecide :: "env \<Rightarrow> string \<Rightarrow> string \<Rightarrow> string \<Rightarrow> world \<Rightarrow> world" where
  "classifyAndDecide e sid key transcriptionText w =
     (case classifyDistressIntent e transcriptionText w of
        (c, w1) \<Rightarrow>
          (let w2 = logEvent sid ''openai_classification''
                      [(key, PStr transcriptionText), (''score'', PNum (score c)),
                       (''reason'', PStr (reason c)), (''isDistressed'', PBool (isDistressed c))] w1
           in if isDistressed c
              then triggerEscalation e sid
                     (logEvent sid ''ai_distress_detected''
                        [(''score'', PNum (score c)), (''reason'', PStr (reason c))] w2)
              else updateSessionStatus e sid Completed w2))"

text \<open>Lines 221-255 of \<open>/recording-complete\<close> and lines 295-327 of \<open>/transcription\<close> are
  the same code up to the payload key naming the transcript.\<close>

definition decide :: "env \<Rightarrow> string \<Rightarrow> session \<Rightarrow> string \<Rightarrow> string \<Rightarrow> world \<Rightarrow> world" where
  "decide e sid s key transcriptionText w =
     (case analyzeResponse (JString transcriptionText) (JString (safe_word s))
             (JString (escalation_word s)) of
        Escalate \<Rightarrow>
          triggerEscalation e sid
            (logEvent sid ''escalation_word_detected'' [(key, PStr transcriptionText)] w)
      | Safe \<Rightarrow>
          updateSessionStatus e sid Completed
            (logEvent sid ''safe_word_detected'' [(key, PStr transcriptionText)] w)
      | Unknown \<Rightarrow> classifyAndDecide e sid key transcriptionText w)"

text \<open>Lines 171 and 192-211 of \<open>/recording-complete\<close>: the provider's transcript, the
  \<open>recording_complete\<close> event, and the fallback when the provider sent no transcript but a
  recording exists. It returns the transcript the handler goes on with.\<close>

definition obtainTranscript ::
  "env \<Rightarrow> string \<Rightarrow> recording_request \<Rightarrow> world \<Rightarrow> string \<times> world" where
  "obtainTranscript e sid req w =
     (let transcriptionText =
            strOr (body_TranscriptionText req) (strOr (body_transcriptionText req) []);
          w1 = (if truthy (body_RecordingSid req)
                then logEvent sid ''recording_complete''
                       [(''recordingSid'', optPval (body_RecordingSid req)),
                        (''duration'', optPval (body_RecordingDuration req)),
                        (''transcriptionStatus'', optPval (body_TranscriptionStatus req))] w
                else w)
      in if transcriptionText = [] \<and> truthy (body_RecordingUrl req)
         then whisperFallback e sid transcriptionText (strOr (body_RecordingUrl req) []) w1
         else (transcriptionText, w1))"

text \<open>\<open>router.all('/recording-complete')\<close>. The response is the hang-up document with
  status 200 on every path, so only the new state is returned.\<close>

definition recordingComplete :: "env \<Rightarrow> recording_request \<Rightarrow> world \<Rightarrow> world" where
  "recordingComplete e req w =
     (if \<not> truthy (query_sessionId req) then w
      else
        (let sid = strOr (query_sessionId req) []
         in case getSession w sid of
              None \<Rightarrow> w
            | Some s \<Rightarrow>
                (case obtainTranscript e sid req w of
                   (text, w2) \<Rightarrow>
                     if text \<noteq> []
                     then decide e sid s ''transcriptionText'' text
                            (logEvent sid ''transcription_received''
                               [(''text'', PStr text),
                                (''status'', optPval (body_TranscriptionStatus req))] w2)
                     else logEvent sid ''no_transcription_available'' [] w2)))"

record transcription_request =
  tr_query_sessionId :: "string option"
  tr_body_TranscriptionText :: "string option"
  tr_body_transcriptionText :: "string option"
  tr_body_TranscriptionStatus :: "string option"

text \<open>\<open>router.post('/transcription')\<close>.\<close>

definition transcriptionWebhook :: "env \<Rightarrow> transcription_request \<Rightarrow> world \<Rightarrow> world" where
  "transcriptionWebhook e req w =
     (let transcription =
            strOr (tr_body_TranscriptionText req) (strOr (tr_body_transcriptionText req) [])
      in if \<not> truthy (tr_query_sessionId req) then w
         else
           (let sid = strOr (tr_query_sessionId req) []
            in case getSession w sid of
                 None \<Rightarrow> w
               | Some s \<Rightarrow>
                   decide e sid s ''transcription'' transcription
                     (logEvent sid ''transcription_received''
                        [(''text'', PStr transcription),
                         (''confidence'', optPval (tr_body_TranscriptionStatus req))] w)))"

section \<open>Scheduler (src/index.js)\<close>

text \<open>Lines 36-46, the body of the loop over the due sessions, cut at the \<open>await\<close> of
  line 40: \<open>processDue_request\<close> runs up to the request to the provider, and
  \<open>processDue_resume\<close> continues with its outcome.\<close>

definition processDue_request :: "env \<Rightarrow> session \<Rightarrow> world \<Rightarrow> (string + string) \<times> world" where
  "processDue_request e s w =
     initiateCheckInCall e (user_phone s) (sess_id s)
       (updateSessionStatus e (sess_id s) Active
          (logEvent (sess_id s) ''call_initiated'' [(''userPhone'', PStr (user_phone s))] w))"

definition processDue_resume :: "env \<Rightarrow> session \<Rightarrow> (string + string) \<times> world \<Rightarrow> world" where
  "processDue_resume e s rw =
     (case rw of
        (Inr _, w1) \<Rightarrow>
          logEvent (sess_id s) ''call_outbound_sent'' [(''userPhone'', PStr (user_phone s))] w1
      | (Inl err, w1) \<Rightarrow>
          updateSessionStatus e (sess_id s) Pending
            (logEvent (sess_id s) ''call_failed'' [(''error'', PStr err)] w1))"

definition processDue :: "env \<Rightarrow> session \<Rightarrow> world \<Rightarrow> world" where
  "processDue e s w = processDue_resume e s (processDue_request e s w)"

text \<open>Lines 26-30: the pending rows ordered by \<open>scheduled_at\<close>, filtered by the clock.\<close>

definition dueSessions :: "env \<Rightarrow> world \<Rightarrow> session list" where
  "dueSessions e w =
     (let all = sort_key scheduled_at (filter (\<lambda>s. status s = Pending) (sessions w))
      in filter (\<lambda>s. scheduled_at s \<le> now e) all)"

definition checkDueSessions :: "env \<Rightarrow> world \<Rightarrow> world" where
  "checkDueSessions e w =
     (if isRunning w then w
      else
        (let w0 = w\<lparr>isRunning := True\<rparr>;
             due = dueSessions e w0;
             w1 = fold (processDue e) due w0
         in w1\<lparr>isRunning := False\<rparr>))"

text \<open>The state in which a tick started in \<open>w\<close> is suspended at line 40 while it waits
  for the provider's answer about its \<open>k\<close>-th due session (counted from 0).\<close>

definition tickSuspended :: "env \<Rightarrow> world \<Rightarrow> nat \<Rightarrow> world" where
  "tickSuspended e w k =
     (let w0 = w\<lparr>isRunning := True\<rparr>;
          due = dueSessions e w0
      in snd (processDue_request e (due ! k) (fold (processDue e) (take k due) w0)))"

section \<open>REST handlers (the routes file: activation, call-now and late location)\<close>

definition isDigitChar :: "char \<Rightarrow> bool" where
  "isDigitChar c = (let n = (of_char c :: nat) in 48 \<le> n \<and> n \<le> 57)"

definition normalizePhone :: "string \<Rightarrow> string" where
  "normalizePhone p =
     (let cleaned = filter isDigitChar p
      in if length cleaned = 10 then ''+1'' @ cleaned
         else if length cleaned = 11 \<and> take 1 cleaned = ''1'' then ''+'' @ cleaned
         else if take 1 p = ''+'' then p else ''+'' @ p)"

definition isValidPhone :: "env \<Rightarrow> string \<Rightarrow> bool" where
  "isValidPhone e p = isMobilePhone e (normalizePhone p)"

text \<open>Lines 85-88: the contact list built from the request.\<close>

definition contactList :: "contact_input list \<Rightarrow> contact_input list" where
  "contactList cs =
     map (\<lambda>(i, c). \<lparr>phone = normalizePhone (phone c),
                     isPrimary = (isPrimary c \<or> (i = 0 \<and> length cs > 0))\<rparr>)
         (enumerate 0 cs)"

record activate_request =
  req_userPhone :: "string option"
  req_safeWord :: "string option"
  req_escalationWord :: "string option"
  req_scheduledAt :: "nat option"
  req_location :: "string option"
  req_contacts :: "contact_input list"

text \<open>\<open>router.post('/activate')\<close>; the result is the HTTP status and the new state.
  \<open>req_scheduledAt\<close> is the instant the date string parses to, \<open>None\<close> when the field is
  missing or does not parse. The scheduler's \<open>addSession\<close> only repeats the test that the
  instant is in the future and changes nothing.\<close>

definition activate :: "env \<Rightarrow> activate_request \<Rightarrow> world \<Rightarrow> nat \<times> world" where
  "activate e req w =
     (if \<not> truthy (req_userPhone req) \<or> \<not> truthy (req_safeWord req) \<or>
         \<not> truthy (req_escalationWord req) \<or> req_scheduledAt req = None
      then (400, w)
      else if length (req_contacts req) = 0 then (400, w)
      else
        (let normalizedUserPhone = normalizePhone (strOr (req_userPhone req) [])
         in if \<not> isValidPhone e normalizedUserPhone then (400, w)
            else
              (case req_scheduledAt req of
                 None \<Rightarrow> (400, w)
               | Some scheduledDate \<Rightarrow>
                   if scheduledDate \<le> now e then (400, w)
                   else
                     (let cl = contactList (req_contacts req)
                      in if list_ex (\<lambda>c. \<not> isValidPhone e (phone c)) cl then (400, w)
                         else
                           (let sid = uuid e;
                                w1 = createSession e sid normalizedUserPhone
                                       (trim (strOr (req_safeWord req) []))
                                       (trim (strOr (req_escalationWord req) []))
                                       scheduledDate
                                       (if truthy (req_location req)
                                        then Some (trim (strOr (req_location req) []))
                                        else None) w;
                                w2 = addEmergencyContacts sid cl w1;
                                w3 = logEvent sid ''session_activated''
                                       [(''userPhone'', PStr normalizedUserPhone),
                                        (''scheduledAt'', PTime scheduledDate),
                                        (''contactCount'', PNum (Finite (of_nat (length cl))))] w2
                            in (201, w3))))))"

text \<open>\<open>router.post('/call-now/:sessionId')\<close>, cut at its \<open>await\<close>: \<open>callNow_request\<close>
  reads the session, refuses one that is not pending and sends the request to the
  provider; \<open>callNow_resume\<close> continues with the provider's answer. The result is the
  HTTP status and the new state.\<close>

datatype call_now = CallNowAnswered nat | CallNowWaiting session "string + string"

definition callNow_request :: "env \<Rightarrow> string \<Rightarrow> world \<Rightarrow> call_now \<times> world" where
  "callNow_request e sid w =
     (case getSession w sid of
        None \<Rightarrow> (CallNowAnswered 404, w)
      | Some s \<Rightarrow>
          if status s \<noteq> Pending then (CallNowAnswered 400, w)
          else (case initiateCheckInCall e (user_phone s) (sess_id s) w of
                  (r, w1) \<Rightarrow> (CallNowWaiting s r, w1)))"

definition callNow_resume :: "env \<Rightarrow> call_now \<Rightarrow> world \<Rightarrow> nat \<times> world" where
  "callNow_resume e c w =
     (case c of
        CallNowAnswered code \<Rightarrow> (code, w)
      | CallNowWaiting s r \<Rightarrow>
          (case r of
             Inr _ \<Rightarrow>
               (200, logEvent (sess_id s) ''call_outbound_sent''
                       [(''userPhone'', PStr (user_phone s)), (''triggeredBy'', PStr ''call-now'')]
                       (updateSessionStatus e (sess_id s) Active w))
           | Inl _ \<Rightarrow> (500, w)))"

definition callNow :: "env \<Rightarrow> string \<Rightarrow> world \<Rightarrow> nat \<times> world" where
  "callNow e sid w = (case callNow_request e sid w of (c, w1) \<Rightarrow> callNow_resume e c w1)"

record location_request =
  loc_body_sessionId :: "string option"
  loc_body_location :: "string option"

text \<open>The message text of line 263 does not begin with the siren emoji: the file holds
  there the four characters U+00F0, U+0178, U+0161 and U+00A8, given here like the
  emoji as the bytes of their UTF-8 encoding.\<close>

definition sirenRecoded :: string where
  "sirenRecoded = [CHR 0xC3, CHR 0xB0, CHR 0xC5, CHR 0xB8, CHR 0xC5, CHR 0xA1, CHR 0xC2, CHR 0xA8]"

definition updatedSmsBody :: "string \<Rightarrow> string \<Rightarrow> string" where
  "updatedSmsBody userPhone locationStr =
     sirenRecoded @ '' GUARDIAN AI - LOCATION UPDATE '' @ sirenRecoded @ nl @ nl @
     ''User '' @ userPhone @ '' has provided their location.'' @ nl @ nl @
     ''Location: '' @ locationStr @ nl @ nl @
     ''Please check on them immediately.'' @ nl @ nl @
     ''This is an automated alert from Guardian AI.''"

text \<open>Lines 273-288: the body of the loop over the contacts.\<close>

definition locationUpdateContact ::
  "env \<Rightarrow> string \<Rightarrow> string \<Rightarrow> string \<Rightarrow> contact \<Rightarrow> world \<Rightarrow> world" where
  "locationUpdateContact e sid body locationStr c w =
     (case sendSMS e (phone_number c) body w of
        (Inr _, w1) \<Rightarrow>
          logEvent sid ''location_update_sms_sent''
            [(''to'', PStr (phone_number c)), (''location'', PStr locationStr)] w1
      | (Inl err, w1) \<Rightarrow>
          logEvent sid ''location_update_sms_failed''
            [(''to'', PStr (phone_number c)), (''error'', PStr err)] w1)"

text \<open>\<open>router.post('/send-location')\<close>; the result is the HTTP status and the new state.\<close>

definition sendLocation :: "env \<Rightarrow> location_request \<Rightarrow> world \<Rightarrow> nat \<times> world" where
  "sendLocation e req w =
     (if \<not> truthy (loc_body_sessionId req) \<or> \<not> truthy (loc_body_location req) then (400, w)
      else
        (let sid = strOr (loc_body_sessionId req) []
         in case getSession w sid of
              None \<Rightarrow> (404, w)
            | Some s \<Rightarrow>
                (let locationStr = trim (strOr (loc_body_location req) [])
                 in if length locationStr = 0 \<or> length locationStr > 500 then (400, w)
                    else
                      (let w1 = updateSessionLocation e sid locationStr w;
                           w2 = logEvent sid ''location_submitted''
                                  [(''location'', PStr locationStr), (''submittedAt'', PTime (now e))] w1;
                           cs = getEmergencyContacts w2 sid;
                           w3 = fold (locationUpdateContact e sid
                                        (updatedSmsBody (user_phone s) locationStr) locationStr) cs w2
                       in (200, w3)))))"


section \<open>A tick interleaved with the other handlers\<close>

text \<open>
  While a tick waits at line 40 for the provider's answer, the handlers of the
  provider's callbacks, of the late location and of call-now can run, each with the
  environment of its own run (another tick that begins meanwhile finds \<open>isRunning\<close>
  set). \<open>arriving k\<close> are the requests handled while the tick waits on its \<open>k\<close>-th
  due session; the tick then continues with the row it fetched when it began. With no
  request arriving this is \<open>checkDueSessions\<close>.
\<close>

datatype request =
    RecordingCompleteRequest env recording_request
  | TranscriptionRequest env transcription_request
  | SendLocationRequest env location_request
  | CallNowRequest env string

fun handle :: "request \<Rightarrow> world \<Rightarrow> world" where
  "handle (RecordingCompleteRequest e req) w = recordingComplete e req w"
| "handle (TranscriptionRequest e req) w = transcriptionWebhook e req w"
| "handle (SendLocationRequest e req) w = snd (sendLocation e req w)"
| "handle (CallNowRequest e sid) w = snd (callNow e sid w)"

definition processDueInterleaved ::
  "env \<Rightarrow> (nat \<Rightarrow> request list) \<Rightarrow> nat \<times> session \<Rightarrow> world \<Rightarrow> world" where
  "processDueInterleaved e arriving ks w =
     (case ks of
        (k, s) \<Rightarrow>
          (case processDue_request e s w of
             (r, w1) \<Rightarrow> processDue_resume e s (r, fold handle (arriving k) w1)))"

definition tickInterleaved :: "env \<Rightarrow> (nat \<Rightarrow> request list) \<Rightarrow> world \<Rightarrow> world" where
  "tickInterleaved e arriving w =
     (if isRunning w then w
      else
        (let w0 = w\<lparr>isRunning := True\<rparr>;
             due = dueSessions e w0;
             w1 = fold (processDueInterleaved e arriving) (enumerate 0 due) w0
         in w1\<lparr>isRunning := False\<rparr>))"

section \<open>Notions used to state the properties\<close>

text \<open>A trigger word is present in a transcript when its normal form is not empty and
  occurs as a contiguous part of the transcript's normal form.\<close>

definition present :: "jsval \<Rightarrow> jsval \<Rightarrow> bool" where
  "present word text =
     (normalizeText word \<noteq> [] \<and> sublist (normalizeText word) (normalizeText text))"

text \<open>A separator is a punctuation or white-space character. Two strings are the same
  up to case and separators when they have the same length and, position by position,
  the characters agree up to case or are both separators.\<close>

definition isSeparator :: "char \<Rightarrow> bool" where
  "isSeparator c = (isPunctChar c \<or> isSpaceChar c)"

definition sameUpToCaseAndSeparators :: "string \<Rightarrow> string \<Rightarrow> bool" where
  "sameUpToCaseAndSeparators a b =
     list_all2 (\<lambda>x y. toLowerChar x = toLowerChar y \<or> (isSeparator x \<and> isSeparator y)) a b"

definition statusOf :: "world \<Rightarrow> string \<Rightarrow> status option" where
  "statusOf w sid = map_option status (getSession w sid)"

definition terminal :: "status \<Rightarrow> bool" where
  "terminal st = (st = Completed \<or> st = Escalated)"

text \<open>The effects a run added to the trace, and the events it added to the log.\<close>

definition newEffects :: "world \<Rightarrow> world \<Rightarrow> effect list" where
  "newEffects w w' = drop (length (trace w)) (trace w')"

definition newEvents :: "world \<Rightarrow> world \<Rightarrow> event list" where
  "newEvents w w' = drop (length (event_log w)) (event_log w')"

fun isEmergencyCall :: "effect \<Rightarrow> bool" where
  "isEmergencyCall (EmergencyCallAttempt _ _ _) = True"
| "isEmergencyCall _ = False"

fun isNotification :: "effect \<Rightarrow> bool" where
  "isNotification (SmsAttempt _ _) = True"
| "isNotification (EmergencyCallAttempt _ _ _) = True"
| "isNotification _ = False"

text \<open>The transcript a \<open>/recording-complete\<close> request yields: the provider's text, or,
  when that is empty and a recording exists, what the fallback transcription returns.\<close>

definition obtainedTranscript :: "env \<Rightarrow> recording_request \<Rightarrow> string" where
  "obtainedTranscript e req =
     (let t = strOr (body_TranscriptionText req) (strOr (body_transcriptionText req) [])
      in if t = [] \<and> truthy (body_RecordingUrl req)
         then (case transcribeAudio_result e (strOr (body_RecordingUrl req) []) of
                 Inr text \<Rightarrow> text | Inl _ \<Rightarrow> t)
         else t)"

text \<open>The events the ladder logs for one send, by the provider's answer.\<close>

definition sessionLocation :: "session \<Rightarrow> string option" where
  "sessionLocation s =
     (case location s of None \<Rightarrow> None | Some l \<Rightarrow> if l = [] then None else Some l)"

definition alertEvent :: "env \<Rightarrow> string \<Rightarrow> string \<Rightarrow> contact \<Rightarrow> event" where
  "alertEvent e sid body c =
     (case sendSMS_result e (phone_number c) body of
        Inr _ \<Rightarrow> Event sid ''sms_sent''
                   [(''to'', PStr (phone_number c)), (''isPrimary'', PBool (is_primary c))]
      | Inl err \<Rightarrow> Event sid ''sms_failed''
                     [(''to'', PStr (phone_number c)), (''error'', PStr err)])"

definition locationRequestEvent :: "env \<Rightarrow> string \<Rightarrow> session \<Rightarrow> event" where
  "locationRequestEvent e sid s =
     (case sendSMS_result e (user_phone s) (userLocationSMS e sid) of
        Inr _ \<Rightarrow> Event sid ''location_request_sms_sent'' [(''to'', PStr (user_phone s))]
      | Inl err \<Rightarrow> Event sid ''location_request_sms_failed'' [(''error'', PStr err)])"

definition primaryCallEvent ::
  "env \<Rightarrow> string \<Rightarrow> session \<Rightarrow> string option \<Rightarrow> contact \<Rightarrow> event" where
  "primaryCallEvent e sid s loc p =
     (case emergencyCall_result e (phone_number p) sid (user_phone s) of
        Inr _ \<Rightarrow> Event sid ''emergency_call_initiated''
                   [(''to'', PStr (phone_number p)), (''location'', optPval loc)]
      | Inl err \<Rightarrow> Event sid ''emergency_call_failed''
                     [(''to'', PStr (phone_number p)), (''error'', PStr err)])"

definition locationUpdateEvent :: "env \<Rightarrow> string \<Rightarrow> string \<Rightarrow> string \<Rightarrow> contact \<Rightarrow> event" where
  "locationUpdateEvent e sid body locationStr c =
     (case sendSMS_result e (phone_number c) body of
        Inr _ \<Rightarrow> Event sid ''location_update_sms_sent''
                   [(''to'', PStr (phone_number c)), (''location'', PStr locationStr)]
      | Inl err \<Rightarrow> Event sid ''location_update_sms_failed''
                     [(''to'', PStr (phone_number c)), (''error'', PStr err)])"

text \<open>Everything one run of the ladder does, in order.\<close>

definition ladderEffects ::
  "env \<Rightarrow> string \<Rightarrow> session \<Rightarrow> contact list \<Rightarrow> contact option \<Rightarrow> effect list" where
  "ladderEffects e sid s cs primary =
     [StatusWrite sid Escalated,
      EventWrite (Event sid ''escalation_triggered''
         [(''userPhone'', PStr (user_phone s)), (''location'', optPval (sessionLocation s)),
          (''timestamp'', PTime (now e))]),
      SmsAttempt (user_phone s) (userLocationSMS e sid),
      EventWrite (locationRequestEvent e sid s)] @
     concat (map (\<lambda>c. [SmsAttempt (phone_number c) (smsBody (user_phone s) (sessionLocation s)),
                        EventWrite (alertEvent e sid (smsBody (user_phone s) (sessionLocation s)) c)])
               cs) @
     (case primary of
        None \<Rightarrow> []
      | Some p \<Rightarrow> [EmergencyCallAttempt (phone_number p) sid (user_phone s),
                   EventWrite (primaryCallEvent e sid s (sessionLocation s) p)])"

text \<open>The status a callback decides for a transcript: the keyword verdict, and the
  classifier's answer where the verdict is \<open>unknown\<close>.\<close>

definition decidedStatus :: "env \<Rightarrow> session \<Rightarrow> string \<Rightarrow> status" where
  "decidedStatus e s t =
     (case analyzeResponse (JString t) (JString (safe_word s)) (JString (escalation_word s)) of
        Escalate \<Rightarrow> Escalated
      | Safe \<Rightarrow> Completed
      | Unknown \<Rightarrow> if isDistressed (classifyResult e t) then Escalated else Completed)"


text \<open>Everything the scheduler does for one due session, in order, and the number of
  check-in calls attempted so far for a phone number and session.\<close>

definition processDueEffects :: "env \<Rightarrow> session \<Rightarrow> effect list" where
  "processDueEffects e s =
     [EventWrite (Event (sess_id s) ''call_initiated'' [(''userPhone'', PStr (user_phone s))]),
      StatusWrite (sess_id s) Active,
      CheckInCallAttempt (user_phone s) (sess_id s)] @
     (case checkInCall_result e (user_phone s) (sess_id s) of
        Inr _ \<Rightarrow>
          [EventWrite (Event (sess_id s) ''call_outbound_sent'' [(''userPhone'', PStr (user_phone s))])]
      | Inl err \<Rightarrow>
          [EventWrite (Event (sess_id s) ''call_failed'' [(''error'', PStr err)]),
           StatusWrite (sess_id s) Pending])"

definition processDueEvents :: "env \<Rightarrow> session \<Rightarrow> event list" where
  "processDueEvents e s =
     [Event (sess_id s) ''call_initiated'' [(''userPhone'', PStr (user_phone s))],
      (case checkInCall_result e (user_phone s) (sess_id s) of
         Inr _ \<Rightarrow> Event (sess_id s) ''call_outbound_sent'' [(''userPhone'', PStr (user_phone s))]
       | Inl err \<Rightarrow> Event (sess_id s) ''call_failed'' [(''error'', PStr err)])]"

definition attempts :: "string \<Rightarrow> string \<Rightarrow> world \<Rightarrow> nat" where
  "attempts p sid w = length (filter (\<lambda>x. x = CheckInCallAttempt p sid) (trace w))"

section \<open>Example states\<close>

text \<open>The example validator accepts the numbers written \<open>+1\<close> and ten digits whose area
  code and exchange code begin with 2 to 9. The validation library accepts these numbers
  by its pattern for the United States (asked for any locale, it accepts others too).\<close>

definition isNorthAmericanMobile :: "string \<Rightarrow> bool" where
  "isNorthAmericanMobile p =
     (take 2 p = ''+1'' \<and> length p = 12 \<and> list_all isDigitChar (drop 2 p) \<and>
      (50 :: nat) \<le> of_char (p ! 2) \<and> (50 :: nat) \<le> of_char (p ! 5))"

text \<open>A provider that cannot reach the first contact and refuses the check-in call to the
  first session's subject, a fallback transcription that fails, and a classifier that
  answers 0.71.\<close>

definition ex_env :: env where
  "ex_env =
     \<lparr>now = 1000, baseUrl = ''https://guardian.example'', uuid = ''s1'',
      isMobilePhone = isNorthAmericanMobile,
      sendSMS_result = (\<lambda>toPhone _. if toPhone = ''+12025550102'' then Inl ''unreachable'' else Inr ''SM1''),
      checkInCall_result = (\<lambda>toPhone _. if toPhone = ''+12025550101'' then Inl ''busy'' else Inr ''CA0''),
      emergencyCall_result = (\<lambda>_ _ _. Inr ''CA1''),
      transcribeAudio_result = (\<lambda>_. Inl ''no audio''),
      openai_result = (\<lambda>_. ApiJson (ScoreNumber (71 / 100)) (Some ''sounds worried''))\<rparr>"

definition ex_session :: "status \<Rightarrow> session" where
  "ex_session st =
     \<lparr>sess_id = ''s1'', user_phone = ''+12025550101'', safe_word = ''pineapple'',
      escalation_word = ''banana'', location = None, scheduled_at = 900, status = st,
      created_at = 100, updated_at = 100\<rparr>"

definition ex_contacts :: "contact list" where
  "ex_contacts =
     [\<lparr>session_id = ''s1'', phone_number = ''+12025550102'', is_primary = True, display_order = 0\<rparr>,
      \<lparr>session_id = ''s1'', phone_number = ''+12025550103'', is_primary = False, display_order = 1\<rparr>]"

definition ex_world :: "status \<Rightarrow> world" where
  "ex_world st =
     \<lparr>sessions = [ex_session st], contacts = ex_contacts, event_log = [], isRunning = False,
      trace = []\<rparr>"

text \<open>A second session with its own subject and contact, and the store holding the first
  session, pending, and the second.\<close>

definition ex_session2 :: "status \<Rightarrow> session" where
  "ex_session2 st =
     \<lparr>sess_id = ''s2'', user_phone = ''+12025550104'', safe_word = ''pineapple'',
      escalation_word = ''banana'', location = None, scheduled_at = 950, status = st,
      created_at = 200, updated_at = 200\<rparr>"

definition ex_world2 :: "status \<Rightarrow> world" where
  "ex_world2 st =
     \<lparr>sessions = [ex_session Pending, ex_session2 st],
      contacts = ex_contacts @
        [\<lparr>session_id = ''s2'', phone_number = ''+12025550105'', is_primary = True, display_order = 0\<rparr>],
      event_log = [], isRunning = False, trace = []\<rparr>"

definition ex_empty :: world where
  "ex_empty = \<lparr>sessions = [], contacts = [], event_log = [], isRunning = False, trace = []\<rparr>"

definition ex_recording :: "string option \<Rightarrow> recording_request" where
  "ex_recording t =
     \<lparr>query_sessionId = Some ''s1'', body_TranscriptionText = t, body_transcriptionText = None,
      body_RecordingSid = Some ''RE1'', body_RecordingUrl = Some ''https://api.twilio.example/RE1'',
      body_RecordingDuration = Some ''4'', body_TranscriptionStatus = None\<rparr>"

definition ex_recording2 :: "string option \<Rightarrow> recording_request" where
  "ex_recording2 t = (ex_recording t)\<lparr>query_sessionId := Some ''s2''\<rparr>"

text \<open>While the tick waits on its first due session, a recording-complete callback with
  the safe word arrives for the second.\<close>

definition ex_arriving :: "nat \<Rightarrow> request list" where
  "ex_arriving k =
     (if k = 0 then [RecordingCompleteRequest ex_env (ex_recording2 (Some ''pineapple''))] else [])"

definition ex_activate :: activate_request where
  "ex_activate =
     \<lparr>req_userPhone = Some ''2025550101'', req_safeWord = Some ''pineapple'',
      req_escalationWord = Some ''banana'', req_scheduledAt = Some 2000, req_location = None,
      req_contacts = [\<lparr>phone = ''2025550102'', isPrimary = False\<rparr>,
                      \<lparr>phone = ''2025550103'', isPrimary = True\<rparr>]\<rparr>"

definition ex_location :: location_request where
  "ex_location = \<lparr>loc_body_sessionId = Some ''s1'', loc_body_location = Some '' 5th and Main ''\<rparr>"

definition ex_transcription :: transcription_request where
  "ex_transcription =
     \<lparr>tr_query_sessionId = Some ''s1'', tr_body_TranscriptionText = Some ''pineapple'',
      tr_body_transcriptionText = None, tr_body_TranscriptionStatus = Some ''completed''\<rparr>"

section \<open>Properties of the response analyzer\<close>

lemma toLowerChar_idem: "toLowerChar (toLowerChar c) = toLowerChar c"
  by (simp add: toLowerChar_def Let_def)

lemma toLowerCase_idem: "toLowerCase (toLowerCase s) = toLowerCase s"
  by (simp add: toLowerCase_def toLowerChar_idem)

lemma literalAt_iff:
  "(\<exists>i. literalAt w t i) \<longleftrightarrow> sublist (toLowerCase w) (toLowerCase t)"
proof
  assume "\<exists>i. literalAt w t i"
  then obtain i where i: "i + length w \<le> length t"
    and eq: "toLowerCase (take (length w) (drop i t)) = toLowerCase w"
    by (auto simp: literalAt_def)
  have "t = take i t @ take (length w) (drop i t) @ drop (length w) (drop i t)"
    by (simp only: append_take_drop_id)
  then have "toLowerCase t = toLowerCase (take i t) @ toLowerCase (take (length w) (drop i t)) @ toLowerCase (drop (length w) (drop i t))"
    unfolding toLowerCase_def by (metis map_append)
  then show "sublist (toLowerCase w) (toLowerCase t)"
    unfolding eq sublist_def by blast
next
  assume "sublist (toLowerCase w) (toLowerCase t)"
  then obtain ps ss where d: "toLowerCase t = ps @ toLowerCase w @ ss"
    by (auto simp: sublist_def)
  have len: "length t = length ps + length w + length ss"
    using arg_cong[OF d, of length] by (simp add: toLowerCase_def)
  have "take (length w) (drop (length ps) (toLowerCase t)) = toLowerCase w"
    unfolding d by (simp add: toLowerCase_def)
  then have "toLowerCase (take (length w) (drop (length ps) t)) = toLowerCase w"
    by (simp add: toLowerCase_def take_map drop_map)
  with len have "literalAt w t (length ps)"
    by (simp add: literalAt_def)
  then show "\<exists>i. literalAt w t i" ..
qed

lemma literalAt_bound: "literalAt w t i \<Longrightarrow> i < Suc (length t)"
  by (simp add: literalAt_def)

lemma regexTest_iff: "regexTest w t \<longleftrightarrow> sublist (toLowerCase w) (toLowerCase t)"
proof -
  have "regexTest w t \<longleftrightarrow> (\<exists>i<Suc (length t). wholeWordAt w t i \<or> literalAt w t i)"
  proof -
    have "set [0..<Suc (length t)] = {i. i < Suc (length t)}" by auto
    then show ?thesis unfolding regexTest_def list_ex_iff by blast
  qed
  also have "\<dots> \<longleftrightarrow> (\<exists>i<Suc (length t). literalAt w t i)"
    unfolding wholeWordAt_def by blast
  also have "\<dots> \<longleftrightarrow> (\<exists>i. literalAt w t i)"
    using literalAt_bound by blast
  finally show ?thesis by (simp add: literalAt_iff)
qed



lemma isSpaceChar_space: "isSpaceChar (CHR '' '')"
  by (simp add: isSpaceChar_def)

lemma not_isPunctChar_space: "\<not> isPunctChar (CHR '' '')"
  by (simp add: isPunctChar_def isSpaceChar_def)

lemma toLowerChar_space: "toLowerChar (CHR '' '') = CHR '' ''"
  by (simp add: toLowerChar_def)

lemma toLowerChar_nonword: "\<not> isWordChar c \<Longrightarrow> toLowerChar c = c"
  by (auto simp: toLowerChar_def isWordChar_def Let_def)

lemma isSpaceChar_not_word: "isSpaceChar c \<Longrightarrow> \<not> isWordChar c"
  by (auto simp: isSpaceChar_def isWordChar_def Let_def)

lemma set_collapseFrom: "set (collapseFrom b s) \<subseteq> insert (CHR '' '') (set s)"
  by (induction s arbitrary: b) auto

lemma collapseFrom_idem: "collapseFrom b (collapseFrom b s) = collapseFrom b s"
  by (induction s arbitrary: b) (auto simp: isSpaceChar_space)

lemma collapseFrom_idem_False: "collapseFrom False (collapseFrom b s) = collapseFrom b s"
  by (induction s arbitrary: b) (auto simp: isSpaceChar_space collapseFrom_idem)



lemma length_collapseFrom: "length (collapseFrom b s) \<le> length s"
  by (induction s arbitrary: b) (auto simp: le_SucI)

lemma collapsed_tl:
  assumes "collapseFrom False (c # cs) = c # cs"
  shows "collapseFrom False cs = cs"
proof (cases "isSpaceChar c")
  case True
  with assms have "collapseFrom True cs = cs" by simp
  then show ?thesis using collapseFrom_idem_False [of True cs] by simp
next
  case False
  with assms show ?thesis by simp
qed

lemma collapsed_dropWhile:
  "collapseFrom False s = s \<Longrightarrow> collapseFrom False (dropWhile P s) = dropWhile P s"
proof (induction s)
  case Nil
  then show ?case by simp
next
  case (Cons c cs)
  from Cons.prems have "collapseFrom False cs = cs" by (rule collapsed_tl)
  with Cons show ?case by simp
qed

lemma collapsed_prefix:
  "collapseFrom b (xs @ ys) = xs @ ys \<Longrightarrow> collapseFrom b xs = xs"
proof (induction xs arbitrary: b)
  case Nil
  then show ?case by simp
next
  case (Cons c cs)
  show ?case
  proof (cases "isSpaceChar c")
    case False
    with Cons show ?thesis by simp
  next
    case True
    show ?thesis
    proof (cases b)
      case True
      with \<open>isSpaceChar c\<close> Cons.prems have "collapseFrom True (cs @ ys) = c # cs @ ys" by simp
      then have "length (collapseFrom True (cs @ ys)) = Suc (length (cs @ ys))" by simp
      with length_collapseFrom [of True "cs @ ys"] show ?thesis by simp
    next
      case False
      with \<open>isSpaceChar c\<close> Cons.prems have "c = CHR '' ''" "collapseFrom True (cs @ ys) = cs @ ys"
        by simp_all
      with Cons.IH [of True] False \<open>isSpaceChar c\<close> show ?thesis by simp
    qed
  qed
qed

lemma trim_prefix_of_dropWhile:
  "dropWhile isSpaceChar s = trim s @ rev (takeWhile isSpaceChar (rev (dropWhile isSpaceChar s)))"
  unfolding trim_def by (metis rev_append rev_rev_ident takeWhile_dropWhile_id)

lemma collapsed_trim:
  assumes "collapseFrom False s = s"
  shows "collapseFrom False (trim s) = trim s"
proof -
  from assms have "collapseFrom False (dropWhile isSpaceChar s) = dropWhile isSpaceChar s"
    by (rule collapsed_dropWhile)
  then have "collapseFrom False (trim s @ rev (takeWhile isSpaceChar (rev (dropWhile isSpaceChar s))))
      = trim s @ rev (takeWhile isSpaceChar (rev (dropWhile isSpaceChar s)))"
    using trim_prefix_of_dropWhile [of s] by simp
  then show ?thesis by (rule collapsed_prefix)
qed

lemma dropWhile_id_iff: "dropWhile P xs = xs \<longleftrightarrow> (xs = [] \<or> \<not> P (hd xs))"
proof (cases xs)
  case Nil
  then show ?thesis by simp
next
  case (Cons a list)
  have "P a \<Longrightarrow> dropWhile P list \<noteq> a # list"
    using length_dropWhile_le [of P list] by (auto dest: arg_cong [where f = length])
  with Cons show ?thesis by auto
qed

lemma trim_idem: "trim (trim s) = trim s"
proof -
  define a where "a = dropWhile isSpaceChar s"
  define b where "b = dropWhile isSpaceChar (rev a)"
  have t: "trim s = rev b" by (simp add: trim_def a_def b_def)
  have b_hd: "b = [] \<or> \<not> isSpaceChar (hd b)"
    unfolding b_def using hd_dropWhile [of isSpaceChar "rev a"] by blast
  have a_hd: "a = [] \<or> \<not> isSpaceChar (hd a)"
    unfolding a_def using hd_dropWhile [of isSpaceChar s] by blast
  have a_split: "a = rev b @ rev (takeWhile isSpaceChar (rev a))"
    using trim_prefix_of_dropWhile [of s] by (simp add: t a_def)
  have "rev b = [] \<or> \<not> isSpaceChar (hd (rev b))"
  proof (cases "b = []")
    case True then show ?thesis by simp
  next
    case False
    then have "hd a = hd (rev b)" using a_split by (metis hd_append2 rev_is_Nil_conv)
    moreover from False a_split have "a \<noteq> []" by auto
    ultimately show ?thesis using a_hd by simp
  qed
  then have 1: "dropWhile isSpaceChar (rev b) = rev b" by (simp add: dropWhile_id_iff)
  from b_hd have 2: "dropWhile isSpaceChar b = b" by (simp add: dropWhile_id_iff)
  show ?thesis unfolding t by (simp add: trim_def 1 2)
qed

lemma set_trim: "set (trim s) \<subseteq> set s"
  unfolding trim_def by (metis set_dropWhileD set_rev subsetI)



lemma normalizeString_chars:
  assumes "c \<in> set (normalizeString s)"
  shows "\<not> isPunctChar c \<and> toLowerChar c = c"
proof -
  from assms have "c \<in> set (collapseSpaces (replacePunct (toLowerCase s)))"
    unfolding normalizeString_def using set_trim by blast
  then have "c = CHR '' '' \<or> c \<in> set (replacePunct (toLowerCase s))"
    unfolding collapseSpaces_def using set_collapseFrom by blast
  then show ?thesis
  proof
    assume "c = CHR '' ''"
    then show ?thesis by (simp add: not_isPunctChar_space toLowerChar_space)
  next
    assume "c \<in> set (replacePunct (toLowerCase s))"
    then have "c \<in> (\<lambda>d. if isPunctChar (toLowerChar d) then CHR '' '' else toLowerChar d) ` set s"
      by (simp add: replacePunct_def toLowerCase_def image_image)
    then obtain d where "c = (if isPunctChar (toLowerChar d) then CHR '' '' else toLowerChar d)"
      by (rule imageE)
    then show ?thesis
      by (simp add: not_isPunctChar_space toLowerChar_space toLowerChar_idem split: if_splits)
  qed
qed

lemma toLowerCase_normalizeString: "toLowerCase (normalizeString s) = normalizeString s"
  unfolding toLowerCase_def by (rule map_idI) (simp add: normalizeString_chars)

lemma replacePunct_normalizeString: "replacePunct (normalizeString s) = normalizeString s"
  unfolding replacePunct_def by (rule map_idI) (simp add: normalizeString_chars)

lemma collapseSpaces_normalizeString: "collapseSpaces (normalizeString s) = normalizeString s"
  unfolding collapseSpaces_def normalizeString_def
  by (rule collapsed_trim) (rule collapseFrom_idem)

lemma trim_normalizeString: "trim (normalizeString s) = normalizeString s"
  unfolding normalizeString_def by (rule trim_idem)

lemma normalizeString_idem: "normalizeString (normalizeString s) = normalizeString s"
proof -
  have "normalizeString (normalizeString s)
      = trim (collapseSpaces (replacePunct (toLowerCase (normalizeString s))))"
    by (simp only: normalizeString_def)
  also have "\<dots> = normalizeString s"
    by (simp only: toLowerCase_normalizeString replacePunct_normalizeString
        collapseSpaces_normalizeString trim_normalizeString)
  finally show ?thesis .
qed

lemma normalizeString_Nil: "normalizeString [] = []"
  by (simp add: normalizeString_def toLowerCase_def replacePunct_def collapseSpaces_def trim_def)

lemma normalizeText_JString: "normalizeText (JString s) = normalizeString s"
  by (simp add: normalizeString_Nil)

lemma normalizeText_idem: "normalizeText (JString (normalizeText x)) = normalizeText x"
  by (cases x) (simp_all add: normalizeString_idem normalizeString_Nil)

lemma toLowerCase_normalizeText: "toLowerCase (normalizeText x) = normalizeText x"
  by (cases x) (simp_all add: toLowerCase_normalizeString, simp_all add: toLowerCase_def)

lemma containsWord_iff: "containsWord text word = present word text"
  by (simp add: containsWord_def present_def Let_def regexTest_iff toLowerCase_normalizeText)

lemma present_normalized: "present word (JString (normalizeText text)) = present word text"
  by (simp only: present_def normalizeText_idem)

lemma analyzeResponse_decision:
  "analyzeResponse t s e =
     (if present e t then Escalate else if present s t then Safe else Unknown)"
  by (simp only: analyzeResponse_def Let_def containsWord_iff present_normalized)

lemma escapeRegex_id: "\<forall>c\<in>set s. \<not> isRegexSpecial c \<Longrightarrow> escapeRegex s = s"
  by (induction s) (simp_all add: escapeRegex_def)

lemma isRegexSpecial_punct: "isRegexSpecial c \<Longrightarrow> isPunctChar c"
  by (auto simp: isRegexSpecial_def isPunctChar_def isWordChar_def isSpaceChar_def)

lemma escapeRegex_normalizeText: "escapeRegex (normalizeText w) = normalizeText w"
proof (rule escapeRegex_id, rule ballI)
  fix c assume "c \<in> set (normalizeText w)"
  then have "c \<in> set (normalizeString (case w of JString s \<Rightarrow> s | _ \<Rightarrow> []))"
    by (cases w) (auto split: if_splits)
  then show "\<not> isRegexSpecial c"
    using normalizeString_chars isRegexSpecial_punct by blast
qed



lemma collapseFrom_cong:
  "list_all2 (\<lambda>x y. x = y \<or> (isSpaceChar x \<and> isSpaceChar y)) xs ys \<Longrightarrow>
   collapseFrom b xs = collapseFrom b ys"
proof (induction xs ys arbitrary: b rule: list_all2_induct)
  case Nil
  then show ?case by simp
next
  case (Cons x xs y ys)
  then show ?case by auto
qed

lemma isSeparator_lower: "isSeparator c \<Longrightarrow> toLowerChar c = c"
  by (auto simp: isSeparator_def isPunctChar_def toLowerChar_nonword isSpaceChar_not_word)

lemma replaced_char_cong:
  assumes "toLowerChar x = toLowerChar y \<or> (isSeparator x \<and> isSeparator y)"
  shows "(if isPunctChar (toLowerChar x) then CHR '' '' else toLowerChar x) =
         (if isPunctChar (toLowerChar y) then CHR '' '' else toLowerChar y)
       \<or> (isSpaceChar (if isPunctChar (toLowerChar x) then CHR '' '' else toLowerChar x) \<and>
          isSpaceChar (if isPunctChar (toLowerChar y) then CHR '' '' else toLowerChar y))"
  using assms
proof
  assume "toLowerChar x = toLowerChar y"
  then show ?thesis by simp
next
  assume "isSeparator x \<and> isSeparator y"
  then show ?thesis
    by (auto simp: isSeparator_lower isSpaceChar_space) (auto simp: isSeparator_def isPunctChar_def)
qed

lemma normalizeString_cong:
  assumes "sameUpToCaseAndSeparators a b"
  shows "normalizeString a = normalizeString b"
proof -
  have "list_all2 (\<lambda>x y. x = y \<or> (isSpaceChar x \<and> isSpaceChar y))
          (replacePunct (toLowerCase a)) (replacePunct (toLowerCase b))"
    using assms unfolding sameUpToCaseAndSeparators_def replacePunct_def toLowerCase_def
    by (simp only: list_all2_map1 list_all2_map2)
       (erule list_all2_mono, rule replaced_char_cong)
  then show ?thesis
    unfolding normalizeString_def collapseSpaces_def by (simp add: collapseFrom_cong)
qed

lemma trim_all_space:
  assumes "\<forall>c\<in>set s. isSpaceChar c"
  shows "trim s = []"
proof -
  from assms have e: "dropWhile isSpaceChar s = []" by simp
  show ?thesis by (simp only: trim_def e rev.simps dropWhile.simps)
qed

lemma normalizeString_separators:
  assumes "\<forall>c\<in>set p. isSeparator c"
  shows "normalizeString p = []"
proof -
  have "\<forall>c\<in>set (replacePunct (toLowerCase p)). isSpaceChar c"
    using assms
    by (auto simp: replacePunct_def toLowerCase_def isSeparator_lower isSpaceChar_space isSeparator_def)
  then have "\<forall>c\<in>set (collapseSpaces (replacePunct (toLowerCase p))). isSpaceChar c"
    unfolding collapseSpaces_def using set_collapseFrom isSpaceChar_space by blast
  then show ?thesis unfolding normalizeString_def by (rule trim_all_space)
qed


section \<open>Properties of the store and of the escalation ladder\<close>

lemma logEvent_fields:
  "sessions (logEvent sid ty pl w) = sessions w"
  "contacts (logEvent sid ty pl w) = contacts w"
  "isRunning (logEvent sid ty pl w) = isRunning w"
  "event_log (logEvent sid ty pl w) = event_log w @ [Event sid ty pl]"
  "trace (logEvent sid ty pl w) = trace w @ [EventWrite (Event sid ty pl)]"
  by (simp_all add: logEvent_def)

lemma updateSessionStatus_fields:
  "sessions (updateSessionStatus e sid st w) =
     map (\<lambda>s. if sess_id s = sid then s\<lparr>status := st, updated_at := now e\<rparr> else s) (sessions w)"
  "contacts (updateSessionStatus e sid st w) = contacts w"
  "isRunning (updateSessionStatus e sid st w) = isRunning w"
  "event_log (updateSessionStatus e sid st w) = event_log w"
  "trace (updateSessionStatus e sid st w) = trace w @ [StatusWrite sid st]"
  by (simp_all add: updateSessionStatus_def)

lemma updateSessionLocation_fields:
  "sessions (updateSessionLocation e sid loc w) =
     map (\<lambda>s. if sess_id s = sid then s\<lparr>location := Some loc, updated_at := now e\<rparr> else s) (sessions w)"
  "contacts (updateSessionLocation e sid loc w) = contacts w"
  "isRunning (updateSessionLocation e sid loc w) = isRunning w"
  "event_log (updateSessionLocation e sid loc w) = event_log w"
  "trace (updateSessionLocation e sid loc w) = trace w @ [LocationWrite sid loc]"
  by (simp_all add: updateSessionLocation_def)

lemma getSession_cong: "sessions w = sessions w' \<Longrightarrow> getSession w sid = getSession w' sid"
  by (simp add: getSession_def)

lemma getEmergencyContacts_cong:
  "contacts w = contacts w' \<Longrightarrow> getEmergencyContacts w sid = getEmergencyContacts w' sid"
  by (simp add: getEmergencyContacts_def)

lemma getPrimaryContact_cong:
  "contacts w = contacts w' \<Longrightarrow> getPrimaryContact w sid = getPrimaryContact w' sid"
  by (simp only: getPrimaryContact_def)

lemma find_map_id_preserving:
  assumes "\<And>x. P (f x) = P x"
  shows "find P (map f xs) = map_option f (find P xs)"
  using assms by (induction xs) auto

lemma getSession_map:
  assumes "\<And>s. sess_id (f s) = sess_id s" and "sessions w' = map f (sessions w)"
  shows "getSession w' sid = map_option f (getSession w sid)"
  unfolding getSession_def assms(2)
  by (rule find_map_id_preserving) (simp add: assms(1))

lemma getSession_sess_id: "getSession w sid = Some s \<Longrightarrow> sess_id s = sid"
  by (auto simp: getSession_def find_Some_iff)

lemma getSession_updateSessionStatus:
  "getSession (updateSessionStatus e sid2 st w) sid =
     (if sid = sid2 then map_option (\<lambda>s. s\<lparr>status := st, updated_at := now e\<rparr>) (getSession w sid)
      else getSession w sid)"
proof -
  have "getSession (updateSessionStatus e sid2 st w) sid =
      map_option (\<lambda>s. if sess_id s = sid2 then s\<lparr>status := st, updated_at := now e\<rparr> else s) (getSession w sid)"
    by (rule getSession_map) (simp_all add: updateSessionStatus_fields)
  then show ?thesis
    by (cases "getSession w sid") (auto dest: getSession_sess_id)
qed

lemma getSession_updateSessionLocation:
  "getSession (updateSessionLocation e sid2 loc w) sid =
     (if sid = sid2 then map_option (\<lambda>s. s\<lparr>location := Some loc, updated_at := now e\<rparr>) (getSession w sid)
      else getSession w sid)"
proof -
  have "getSession (updateSessionLocation e sid2 loc w) sid =
      map_option (\<lambda>s. if sess_id s = sid2 then s\<lparr>location := Some loc, updated_at := now e\<rparr> else s) (getSession w sid)"
    by (rule getSession_map) (simp_all add: updateSessionLocation_fields)
  then show ?thesis
    by (cases "getSession w sid") (auto dest: getSession_sess_id)
qed



lemma alertContact_fields:
  "sessions (alertContact e sid body c w) = sessions w"
  "contacts (alertContact e sid body c w) = contacts w"
  "isRunning (alertContact e sid body c w) = isRunning w"
  "trace (alertContact e sid body c w) =
     trace w @ [SmsAttempt (phone_number c) body, EventWrite (alertEvent e sid body c)]"
  "event_log (alertContact e sid body c w) = event_log w @ [alertEvent e sid body c]"
  by (simp_all add: alertContact_def alertEvent_def sendSMS_def logEvent_def split: sum.splits)

lemma fold_alertContact_fields:
  "sessions (fold (alertContact e sid body) cs w) = sessions w"
  "contacts (fold (alertContact e sid body) cs w) = contacts w"
  "isRunning (fold (alertContact e sid body) cs w) = isRunning w"
  "trace (fold (alertContact e sid body) cs w) =
     trace w @ concat (map (\<lambda>c. [SmsAttempt (phone_number c) body, EventWrite (alertEvent e sid body c)]) cs)"
  "event_log (fold (alertContact e sid body) cs w) = event_log w @ map (alertEvent e sid body) cs"
  by (induction cs arbitrary: w) (simp_all add: alertContact_fields)

lemma requestLocation_fields:
  "sessions (requestLocation e sid s w) = sessions w"
  "contacts (requestLocation e sid s w) = contacts w"
  "isRunning (requestLocation e sid s w) = isRunning w"
  "trace (requestLocation e sid s w) =
     trace w @ [SmsAttempt (user_phone s) (userLocationSMS e sid), EventWrite (locationRequestEvent e sid s)]"
  "event_log (requestLocation e sid s w) = event_log w @ [locationRequestEvent e sid s]"
  by (simp_all add: requestLocation_def locationRequestEvent_def sendSMS_def logEvent_def split: sum.splits)

lemma callPrimary_fields:
  "sessions (callPrimary e sid s loc w) = sessions w"
  "contacts (callPrimary e sid s loc w) = contacts w"
  "isRunning (callPrimary e sid s loc w) = isRunning w"
  "trace (callPrimary e sid s loc w) =
     trace w @ (case getPrimaryContact w sid of None \<Rightarrow> []
                | Some p \<Rightarrow> [EmergencyCallAttempt (phone_number p) sid (user_phone s),
                             EventWrite (primaryCallEvent e sid s loc p)])"
  "event_log (callPrimary e sid s loc w) =
     event_log w @ (case getPrimaryContact w sid of None \<Rightarrow> [] | Some p \<Rightarrow> [primaryCallEvent e sid s loc p])"
  by (simp_all add: callPrimary_def primaryCallEvent_def initiateEmergencyCall_def logEvent_def
      split: sum.splits option.splits)

lemma triggerEscalation_None: "getSession w sid = None \<Longrightarrow> triggerEscalation e sid w = w"
  by (simp add: triggerEscalation_def)

lemma triggerEscalation_Some:
  assumes "getSession w sid = Some s"
  shows "sessions (triggerEscalation e sid w) =
           map (\<lambda>r. if sess_id r = sid then r\<lparr>status := Escalated, updated_at := now e\<rparr> else r) (sessions w)"
    and "contacts (triggerEscalation e sid w) = contacts w"
    and "isRunning (triggerEscalation e sid w) = isRunning w"
    and "trace (triggerEscalation e sid w) =
           trace w @ ladderEffects e sid s (getEmergencyContacts w sid) (getPrimaryContact w sid)"
    and "event_log (triggerEscalation e sid w) =
           event_log w @
           [Event sid ''escalation_triggered''
              [(''userPhone'', PStr (user_phone s)), (''location'', optPval (sessionLocation s)),
               (''timestamp'', PTime (now e))],
            locationRequestEvent e sid s] @
           map (alertEvent e sid (smsBody (user_phone s) (sessionLocation s))) (getEmergencyContacts w sid) @
           (case getPrimaryContact w sid of None \<Rightarrow> []
            | Some p \<Rightarrow> [primaryCallEvent e sid s (sessionLocation s) p])"
proof -
  define w1 where "w1 = updateSessionStatus e sid Escalated w"
  define w2 where "w2 = logEvent sid ''escalation_triggered''
                      [(''userPhone'', PStr (user_phone s)), (''location'', optPval (sessionLocation s)),
                       (''timestamp'', PTime (now e))] w1"
  define w3 where "w3 = requestLocation e sid s w2"
  define w4 where "w4 = fold (alertContact e sid (smsBody (user_phone s) (sessionLocation s)))
                          (getEmergencyContacts w3 sid) w3"
  have te: "triggerEscalation e sid w = callPrimary e sid s (sessionLocation s) w4"
    using assms by (simp add: triggerEscalation_def Let_def w1_def w2_def w3_def w4_def sessionLocation_def)
  have c3: "contacts w3 = contacts w"
    by (simp add: w3_def w2_def w1_def requestLocation_fields logEvent_fields updateSessionStatus_fields)
  have c4: "contacts w4 = contacts w"
    by (simp add: w4_def fold_alertContact_fields c3)
  have g3: "getEmergencyContacts w3 sid = getEmergencyContacts w sid"
    using c3 by (rule getEmergencyContacts_cong)
  have g4: "getPrimaryContact w4 sid = getPrimaryContact w sid"
    using c4 by (rule getPrimaryContact_cong)
  show "sessions (triggerEscalation e sid w) =
           map (\<lambda>r. if sess_id r = sid then r\<lparr>status := Escalated, updated_at := now e\<rparr> else r) (sessions w)"
    by (simp add: te callPrimary_fields w4_def fold_alertContact_fields w3_def requestLocation_fields
        w2_def logEvent_fields w1_def updateSessionStatus_fields)
  show "contacts (triggerEscalation e sid w) = contacts w"
    by (simp add: te callPrimary_fields c4)
  show "isRunning (triggerEscalation e sid w) = isRunning w"
    by (simp add: te callPrimary_fields w4_def fold_alertContact_fields w3_def requestLocation_fields
        w2_def logEvent_fields w1_def updateSessionStatus_fields)
  have t3: "trace w3 = trace w @
     [StatusWrite sid Escalated,
      EventWrite (Event sid ''escalation_triggered''
         [(''userPhone'', PStr (user_phone s)), (''location'', optPval (sessionLocation s)),
          (''timestamp'', PTime (now e))]),
      SmsAttempt (user_phone s) (userLocationSMS e sid),
      EventWrite (locationRequestEvent e sid s)]"
    by (simp add: w3_def requestLocation_fields w2_def logEvent_fields w1_def updateSessionStatus_fields)
  have t4: "trace w4 = trace w3 @
     concat (map (\<lambda>c. [SmsAttempt (phone_number c) (smsBody (user_phone s) (sessionLocation s)),
                        EventWrite (alertEvent e sid (smsBody (user_phone s) (sessionLocation s)) c)])
              (getEmergencyContacts w sid))"
    by (simp only: w4_def fold_alertContact_fields g3)
  show "trace (triggerEscalation e sid w) =
           trace w @ ladderEffects e sid s (getEmergencyContacts w sid) (getPrimaryContact w sid)"
    by (simp add: te callPrimary_fields g4 t4 t3 ladderEffects_def)
  have l3: "event_log w3 = event_log w @
     [Event sid ''escalation_triggered''
         [(''userPhone'', PStr (user_phone s)), (''location'', optPval (sessionLocation s)),
          (''timestamp'', PTime (now e))],
      locationRequestEvent e sid s]"
    by (simp add: w3_def requestLocation_fields w2_def logEvent_fields w1_def updateSessionStatus_fields)
  have l4: "event_log w4 = event_log w3 @
     map (alertEvent e sid (smsBody (user_phone s) (sessionLocation s))) (getEmergencyContacts w sid)"
    by (simp only: w4_def fold_alertContact_fields g3)
  show "event_log (triggerEscalation e sid w) =
           event_log w @
           [Event sid ''escalation_triggered''
              [(''userPhone'', PStr (user_phone s)), (''location'', optPval (sessionLocation s)),
               (''timestamp'', PTime (now e))],
            locationRequestEvent e sid s] @
           map (alertEvent e sid (smsBody (user_phone s) (sessionLocation s))) (getEmergencyContacts w sid) @
           (case getPrimaryContact w sid of None \<Rightarrow> []
            | Some p \<Rightarrow> [primaryCallEvent e sid s (sessionLocation s) p])"
    by (simp add: te callPrimary_fields g4 l4 l3)
qed

lemma statusOf_cong: "sessions w = sessions w' \<Longrightarrow> statusOf w sid = statusOf w' sid"
  by (simp add: statusOf_def getSession_def)

lemma statusOf_updateSessionStatus:
  "statusOf (updateSessionStatus e sid2 st w) sid =
     (if sid = sid2 then map_option (\<lambda>_. st) (statusOf w sid) else statusOf w sid)"
  by (cases "getSession w sid") (auto simp: statusOf_def getSession_updateSessionStatus)

lemma statusOf_logEvent: "statusOf (logEvent sid2 ty pl w) sid = statusOf w sid"
  by (rule statusOf_cong) (simp add: logEvent_fields)

lemma statusOf_triggerEscalation:
  "statusOf (triggerEscalation e sid2 w) sid =
     (if sid = sid2 then map_option (\<lambda>_. Escalated) (statusOf w sid) else statusOf w sid)"
proof (cases "getSession w sid2")
  case None
  then show ?thesis by (auto simp: triggerEscalation_None statusOf_def)
next
  case (Some s)
  have "sessions (triggerEscalation e sid2 w) = sessions (updateSessionStatus e sid2 Escalated w)"
    by (simp add: triggerEscalation_Some(1) [OF Some] updateSessionStatus_fields)
  then have "statusOf (triggerEscalation e sid2 w) sid = statusOf (updateSessionStatus e sid2 Escalated w) sid"
    by (rule statusOf_cong)
  then show ?thesis by (simp only: statusOf_updateSessionStatus)
qed

section \<open>Properties of the provider callbacks\<close>

lemma classifyDistressIntent_fields:
  "fst (classifyDistressIntent e t w) = classifyResult e t"
  "sessions (snd (classifyDistressIntent e t w)) = sessions w"
  "contacts (snd (classifyDistressIntent e t w)) = contacts w"
  "isRunning (snd (classifyDistressIntent e t w)) = isRunning w"
  "event_log (snd (classifyDistressIntent e t w)) = event_log w"
  "trace (snd (classifyDistressIntent e t w)) =
     trace w @ (if t = [] \<or> length (trim t) = 0 then [] else [ClassifyAttempt t])"
  by (simp_all add: classifyDistressIntent_def)

lemma DISTRESS_THRESHOLD_value:
  "DISTRESS_THRESHOLD = Finite (3152519739159347 / 4503599627370496)"
  by code_simp

lemma classifyResult_isDistressed:
  "isDistressed (classifyResult e t) = jsGe (score (classifyResult e t)) DISTRESS_THRESHOLD"
  by (simp add: classifyResult_def DISTRESS_THRESHOLD_value Let_def split: api_response.splits)

lemma terminal_decidedStatus: "terminal (decidedStatus e s t)"
  by (simp add: decidedStatus_def terminal_def split: verdict.splits)

lemma statusOf_classifyAndDecide:
  "statusOf (classifyAndDecide e sid key t w) sid' =
     (if sid' = sid
      then map_option (\<lambda>_. if isDistressed (classifyResult e t) then Escalated else Completed) (statusOf w sid')
      else statusOf w sid')"
proof -
  obtain c w1 where cw: "classifyDistressIntent e t w = (c, w1)" by (cases "classifyDistressIntent e t w")
  from cw have c: "c = classifyResult e t" and w1: "sessions w1 = sessions w"
    using classifyDistressIntent_fields(1,2) [of e t w] by simp_all
  have s1: "\<And>x. statusOf w1 x = statusOf w x" using w1 by (rule statusOf_cong)
  show ?thesis
    unfolding classifyAndDecide_def cw
    by (simp add: Let_def statusOf_triggerEscalation statusOf_updateSessionStatus statusOf_logEvent s1 c)
qed

lemma statusOf_decide:
  "statusOf (decide e sid s key t w) sid' =
     (if sid' = sid then map_option (\<lambda>_. decidedStatus e s t) (statusOf w sid') else statusOf w sid')"
  by (simp add: decide_def decidedStatus_def statusOf_classifyAndDecide statusOf_triggerEscalation
      statusOf_updateSessionStatus statusOf_logEvent split: verdict.splits)

lemma whisperFallback_fields:
  "sessions (snd (whisperFallback e sid t url w)) = sessions w"
  "contacts (snd (whisperFallback e sid t url w)) = contacts w"
  "isRunning (snd (whisperFallback e sid t url w)) = isRunning w"
  "fst (whisperFallback e sid t url w) = (case transcribeAudio_result e url of Inr text \<Rightarrow> text | Inl _ \<Rightarrow> t)"
  by (simp_all add: whisperFallback_def transcribeAudio_def logEvent_def split: sum.splits)

lemma obtainTranscript_fields:
  "fst (obtainTranscript e sid req w) = obtainedTranscript e req"
  "sessions (snd (obtainTranscript e sid req w)) = sessions w"
  "contacts (snd (obtainTranscript e sid req w)) = contacts w"
  "isRunning (snd (obtainTranscript e sid req w)) = isRunning w"
  by (auto simp: obtainTranscript_def obtainedTranscript_def Let_def whisperFallback_fields logEvent_fields
      split: sum.splits)

lemma statusOf_recordingComplete:
  "statusOf (recordingComplete e req w) sid' = statusOf w sid' \<or>
   (\<exists>s. getSession w sid' = Some s \<and> sid' = strOr (query_sessionId req) [] \<and>
        obtainedTranscript e req \<noteq> [] \<and>
        statusOf (recordingComplete e req w) sid' = Some (decidedStatus e s (obtainedTranscript e req)))"
proof (cases "truthy (query_sessionId req)")
  case False
  then show ?thesis by (simp add: recordingComplete_def)
next
  case True
  define sid where "sid = strOr (query_sessionId req) []"
  show ?thesis
  proof (cases "getSession w sid")
    case None
    then show ?thesis using True by (simp add: recordingComplete_def sid_def)
  next
    case (Some s)
    obtain tr w2 where ot: "obtainTranscript e sid req w = (tr, w2)"
      by (cases "obtainTranscript e sid req w")
    from ot have tr: "tr = obtainedTranscript e req" and w2: "sessions w2 = sessions w"
      using obtainTranscript_fields(1,2) [of e sid req w] by simp_all
    have s2: "\<And>x. statusOf w2 x = statusOf w x" using w2 by (rule statusOf_cong)
    have rc: "recordingComplete e req w =
        (if tr \<noteq> []
         then decide e sid s ''transcriptionText'' tr
                (logEvent sid ''transcription_received''
                   [(''text'', PStr tr), (''status'', optPval (body_TranscriptionStatus req))] w2)
         else logEvent sid ''no_transcription_available'' [] w2)"
      using True Some ot by (simp add: recordingComplete_def sid_def [symmetric])
    show ?thesis
    proof (cases "tr = []")
      case True
      then show ?thesis by (simp add: rc statusOf_logEvent s2)
    next
      case False
      show ?thesis
      proof (cases "sid' = sid")
        case False
        with \<open>tr \<noteq> []\<close> show ?thesis by (simp add: rc statusOf_decide statusOf_logEvent s2)
      next
        case True
        with \<open>tr \<noteq> []\<close> Some have "statusOf (recordingComplete e req w) sid' = Some (decidedStatus e s tr)"
          by (simp add: rc statusOf_decide statusOf_logEvent s2) (simp add: statusOf_def)
        with True Some \<open>tr \<noteq> []\<close> show ?thesis by (simp add: tr sid_def)
      qed
    qed
  qed
qed

section \<open>Properties of the scheduler and of the late location\<close>

lemma processDue_request_fields:
  "fst (processDue_request e s w) = checkInCall_result e (user_phone s) (sess_id s)"
  "sessions (snd (processDue_request e s w)) =
     map (\<lambda>r. if sess_id r = sess_id s then r\<lparr>status := Active, updated_at := now e\<rparr> else r) (sessions w)"
  "contacts (snd (processDue_request e s w)) = contacts w"
  "isRunning (snd (processDue_request e s w)) = isRunning w"
  "trace (snd (processDue_request e s w)) =
     trace w @ [EventWrite (Event (sess_id s) ''call_initiated'' [(''userPhone'', PStr (user_phone s))]),
                StatusWrite (sess_id s) Active,
                CheckInCallAttempt (user_phone s) (sess_id s)]"
  "event_log (snd (processDue_request e s w)) =
     event_log w @ [Event (sess_id s) ''call_initiated'' [(''userPhone'', PStr (user_phone s))]]"
  by (simp_all add: processDue_request_def initiateCheckInCall_def updateSessionStatus_def logEvent_def)

lemma processDue_fields:
  "sessions (processDue e s w) =
     map (\<lambda>r. if sess_id r = sess_id s
              then r\<lparr>status := (case checkInCall_result e (user_phone s) (sess_id s) of
                                   Inr _ \<Rightarrow> Active | Inl _ \<Rightarrow> Pending),
                      updated_at := now e\<rparr>
              else r) (sessions w)"
  "contacts (processDue e s w) = contacts w"
  "isRunning (processDue e s w) = isRunning w"
  "trace (processDue e s w) =
     trace w @ [EventWrite (Event (sess_id s) ''call_initiated'' [(''userPhone'', PStr (user_phone s))]),
                StatusWrite (sess_id s) Active,
                CheckInCallAttempt (user_phone s) (sess_id s)] @
     (case checkInCall_result e (user_phone s) (sess_id s) of
        Inr _ \<Rightarrow> [EventWrite (Event (sess_id s) ''call_outbound_sent'' [(''userPhone'', PStr (user_phone s))])]
      | Inl err \<Rightarrow> [EventWrite (Event (sess_id s) ''call_failed'' [(''error'', PStr err)]),
                    StatusWrite (sess_id s) Pending])"
  "event_log (processDue e s w) =
     event_log w @ [Event (sess_id s) ''call_initiated'' [(''userPhone'', PStr (user_phone s))],
                    (case checkInCall_result e (user_phone s) (sess_id s) of
                       Inr _ \<Rightarrow> Event (sess_id s) ''call_outbound_sent'' [(''userPhone'', PStr (user_phone s))]
                     | Inl err \<Rightarrow> Event (sess_id s) ''call_failed'' [(''error'', PStr err)])]"
  by (auto simp: processDue_def processDue_resume_def processDue_request_def initiateCheckInCall_def
      updateSessionStatus_def logEvent_def split: sum.splits)

lemma fold_processDue_fields:
  "contacts (fold (processDue e) xs w) = contacts w"
  "isRunning (fold (processDue e) xs w) = isRunning w"
  by (induction xs arbitrary: w) (simp_all add: processDue_fields)

lemma statusOf_processDue:
  "sid \<noteq> sess_id s \<Longrightarrow> statusOf (processDue e s w) sid = statusOf w sid"
proof -
  assume ne: "sid \<noteq> sess_id s"
  have "getSession (processDue e s w) sid =
      map_option (\<lambda>r. if sess_id r = sess_id s
              then r\<lparr>status := (case checkInCall_result e (user_phone s) (sess_id s) of
                                   Inr _ \<Rightarrow> Active | Inl _ \<Rightarrow> Pending),
                      updated_at := now e\<rparr>
              else r) (getSession w sid)"
    by (rule getSession_map) (simp_all add: processDue_fields)
  with ne show ?thesis
    by (cases "getSession w sid") (auto simp: statusOf_def dest: getSession_sess_id)
qed

lemma statusOf_fold_processDue:
  "sid \<notin> sess_id ` set xs \<Longrightarrow> statusOf (fold (processDue e) xs w) sid = statusOf w sid"
  by (induction xs arbitrary: w) (simp_all add: statusOf_processDue)

lemma dueSessions_isRunning: "dueSessions e (w\<lparr>isRunning := b\<rparr>) = dueSessions e w"
  by (simp add: dueSessions_def)

lemma set_dueSessions:
  "set (dueSessions e w) = {s \<in> set (sessions w). status s = Pending \<and> scheduled_at s \<le> now e}"
  by (auto simp: dueSessions_def)

lemma distinct_ids_unique:
  assumes "distinct (map sess_id xs)" "a \<in> set xs" "b \<in> set xs" "sess_id a = sess_id b"
  shows "a = b"
  using assms by (meson distinct_map inj_onD)

lemma getSession_in_set: "getSession w sid = Some s \<Longrightarrow> s \<in> set (sessions w)"
  by (auto simp: getSession_def find_Some_iff)

lemma statusOf_checkDueSessions_other:
  assumes d: "distinct (map sess_id (sessions w))"
    and g: "getSession w sid = Some s" and np: "status s \<noteq> Pending"
  shows "statusOf (checkDueSessions e w) sid = Some (status s)"
proof (cases "isRunning w")
  case True
  with g show ?thesis by (simp add: checkDueSessions_def statusOf_def)
next
  case False
  have "sid \<notin> sess_id ` set (dueSessions e w)"
  proof
    assume "sid \<in> sess_id ` set (dueSessions e w)"
    then obtain r where r: "r \<in> set (sessions w)" "status r = Pending" "sess_id r = sid"
      by (auto simp: set_dueSessions)
    from g have "s \<in> set (sessions w)" "sess_id s = sid"
      by (simp_all add: getSession_in_set getSession_sess_id)
    with d r have "r = s" by (auto intro: distinct_ids_unique)
    with r np show False by simp
  qed
  then have "statusOf (fold (processDue e) (dueSessions e w) (w\<lparr>isRunning := True\<rparr>)) sid
      = statusOf (w\<lparr>isRunning := True\<rparr>) sid"
    by (rule statusOf_fold_processDue)
  moreover have "statusOf (w\<lparr>isRunning := True\<rparr>) sid = statusOf w sid"
    by (rule statusOf_cong) simp
  moreover have "statusOf (checkDueSessions e w) sid =
      statusOf (fold (processDue e) (dueSessions e w) (w\<lparr>isRunning := True\<rparr>)) sid"
    using False by (intro statusOf_cong) (simp add: checkDueSessions_def Let_def dueSessions_isRunning)
  ultimately show ?thesis using g by (simp add: statusOf_def)
qed

lemma locationUpdateContact_fields:
  "sessions (locationUpdateContact e sid body l c w) = sessions w"
  "contacts (locationUpdateContact e sid body l c w) = contacts w"
  "isRunning (locationUpdateContact e sid body l c w) = isRunning w"
  "trace (locationUpdateContact e sid body l c w) =
     trace w @ [SmsAttempt (phone_number c) body, EventWrite (locationUpdateEvent e sid body l c)]"
  "event_log (locationUpdateContact e sid body l c w) = event_log w @ [locationUpdateEvent e sid body l c]"
  by (simp_all add: locationUpdateContact_def locationUpdateEvent_def sendSMS_def logEvent_def split: sum.splits)

lemma fold_locationUpdateContact_fields:
  "sessions (fold (locationUpdateContact e sid body l) cs w) = sessions w"
  "contacts (fold (locationUpdateContact e sid body l) cs w) = contacts w"
  "isRunning (fold (locationUpdateContact e sid body l) cs w) = isRunning w"
  "trace (fold (locationUpdateContact e sid body l) cs w) =
     trace w @ concat (map (\<lambda>c. [SmsAttempt (phone_number c) body, EventWrite (locationUpdateEvent e sid body l c)]) cs)"
  "event_log (fold (locationUpdateContact e sid body l) cs w) =
     event_log w @ map (locationUpdateEvent e sid body l) cs"
  by (induction cs arbitrary: w) (simp_all add: locationUpdateContact_fields)

lemma sendLocation_rejected:
  "fst (sendLocation e req w) \<noteq> 200 \<Longrightarrow> snd (sendLocation e req w) = w"
  by (auto simp: sendLocation_def Let_def split: option.splits if_splits)

lemma sendLocation_sessions:
  "sessions (snd (sendLocation e req w)) = sessions w \<or>
   sessions (snd (sendLocation e req w)) =
     sessions (updateSessionLocation e (strOr (loc_body_sessionId req) [])
                 (trim (strOr (loc_body_location req) [])) w)"
  by (auto simp: sendLocation_def Let_def fold_locationUpdateContact_fields logEvent_fields
      split: option.splits if_splits)

lemma statusOf_updateSessionLocation:
  "statusOf (updateSessionLocation e sid2 loc w) sid = statusOf w sid"
  by (cases "getSession w sid") (auto simp: statusOf_def getSession_updateSessionLocation)

lemma statusOf_sendLocation: "statusOf (snd (sendLocation e req w)) sid = statusOf w sid"
  using sendLocation_sessions [of e req w]
  by (auto dest: statusOf_cong [where sid = sid] simp: statusOf_updateSessionLocation)

section \<open>Claims about the response analyzer\<close>

text \<open>
  Claim C4, as stated, fails in its punctuation part. The analyzer replaces each
  punctuation character by a space and does not remove it, so punctuation inside a word
  splits the word: with the escalation word \<open>S.O.S\<close> the transcript \<open>sos\<close> is not
  recognised, while with \<open>SOS\<close> it is.
\<close>

theorem analyzeResponse_punctuation_counterexample:
  "analyzeResponse (JString ''sos'') (JString ''pineapple'') (JString ''S.O.S'') = Unknown \<and>
   analyzeResponse (JString ''sos'') (JString ''pineapple'') (JString ''SOS'') = Escalate"
  by code_simp

text \<open>
  Claim C4, amended. \<open>analyzeResponse\<close> does not depend on the case of the transcript
  or of the trigger words, and it treats every punctuation character as white space: two
  inputs that agree up to case and up to which separator (punctuation or white space)
  stands at each position get the same verdict. What the source's regular expression
  tests (the word between word boundaries, or the word anywhere) is that the normal form
  of the word is not empty and is a contiguous part of the normal form of the transcript.
  The verdict is \<open>escalate\<close> whenever the escalation word is present, also when the safe
  word is present too; \<open>safe\<close> when only the safe word is present; \<open>unknown\<close> when
  neither is.
\<close>

theorem analyzeResponse_normal_forms:
  "(sameUpToCaseAndSeparators t t' \<and> sameUpToCaseAndSeparators s s' \<and>
    sameUpToCaseAndSeparators e e' \<longrightarrow>
      analyzeResponse (JString t) (JString s) (JString e) =
      analyzeResponse (JString t') (JString s') (JString e')) \<and>
   containsWord x z = present z x \<and>
   analyzeResponse x y z =
     (if present z x then Escalate else if present y x then Safe else Unknown)"
proof (intro conjI impI)
  assume "sameUpToCaseAndSeparators t t' \<and> sameUpToCaseAndSeparators s s' \<and>
    sameUpToCaseAndSeparators e e'"
  then have "normalizeText (JString t) = normalizeText (JString t')"
    "normalizeText (JString s) = normalizeText (JString s')"
    "normalizeText (JString e) = normalizeText (JString e')"
    by (simp_all only: normalizeText_JString normalizeString_cong)
  then show "analyzeResponse (JString t) (JString s) (JString e) =
      analyzeResponse (JString t') (JString s') (JString e')"
    by (simp only: analyzeResponse_decision present_def)
next
  show "containsWord x z = present z x" by (rule containsWord_iff)
next
  show "analyzeResponse x y z =
     (if present z x then Escalate else if present y x then Safe else Unknown)"
    by (rule analyzeResponse_decision)
qed

text \<open>The amended claim C4 at the specification's example \<open>I'm fine, PINEAPPLE!\<close>.\<close>

theorem analyzeResponse_normal_forms_witness:
  "sameUpToCaseAndSeparators ''I'm fine, PINEAPPLE!'' ''i.M FINE;;pineapple '' \<and>
   sameUpToCaseAndSeparators ''pineapple'' ''PineApple'' \<and>
   sameUpToCaseAndSeparators ''banana'' ''BANANA'' \<and>
   analyzeResponse (JString ''I'm fine, PINEAPPLE!'') (JString ''pineapple'') (JString ''banana'') =
   analyzeResponse (JString ''i.M FINE;;pineapple '') (JString ''PineApple'') (JString ''BANANA'')"
proof -
  have h: "sameUpToCaseAndSeparators ''I'm fine, PINEAPPLE!'' ''i.M FINE;;pineapple '' \<and>
     sameUpToCaseAndSeparators ''pineapple'' ''PineApple'' \<and>
     sameUpToCaseAndSeparators ''banana'' ''BANANA''"
    by code_simp
  from analyzeResponse_normal_forms
    [of "''I'm fine, PINEAPPLE!''" "''i.M FINE;;pineapple ''" "''pineapple''" "''PineApple''"
        "''banana''" "''BANANA''"] h
  show ?thesis by blast
qed

text \<open>
  Claim C10. The analyzer has no failing path: the model is a total function on all
  JavaScript values, and the pattern it compiles is always well formed because
  \<open>escapeRegex\<close> leaves a normal form unchanged (lemma \<open>escapeRegex_normalizeText\<close>).
  A transcript that is not a string, or is the empty string, normalizes to the empty
  string and gets the verdict \<open>unknown\<close>. A text made of punctuation and white space only
  normalizes to the empty string. A trigger word whose normal form is empty (a value that
  is not a string, the empty string, or separators only) is never considered present, so
  it never produces \<open>escalate\<close> as escalation word nor \<open>safe\<close> as safe word.
\<close>

theorem analyzeResponse_degenerate_inputs:
  "(((\<forall>s. x \<noteq> JString s) \<or> x = JString []) \<longrightarrow>
      normalizeText x = [] \<and> analyzeResponse x sw ew = Unknown) \<and>
   ((\<forall>c\<in>set p. isSeparator c) \<longrightarrow> normalizeText (JString p) = []) \<and>
   (normalizeText word = [] \<longrightarrow> \<not> containsWord t word) \<and>
   (normalizeText ew' = [] \<longrightarrow> analyzeResponse t' sw' ew' \<noteq> Escalate) \<and>
   (normalizeText sw'' = [] \<longrightarrow> analyzeResponse t'' sw'' ew'' \<noteq> Safe)"
proof (intro conjI impI)
  assume a: "(\<forall>s. x \<noteq> JString s) \<or> x = JString []"
  then show n: "normalizeText x = []" by (cases x) auto
  have "\<And>w. \<not> present w x"
    unfolding present_def n by auto
  then show "analyzeResponse x sw ew = Unknown"
    by (simp add: analyzeResponse_decision)
next
  assume "\<forall>c\<in>set p. isSeparator c"
  then show "normalizeText (JString p) = []"
    by (simp only: normalizeText_JString normalizeString_separators)
next
  assume "normalizeText word = []"
  then show "\<not> containsWord t word" by (simp add: containsWord_def)
next
  assume "normalizeText ew' = []"
  then show "analyzeResponse t' sw' ew' \<noteq> Escalate"
    by (simp add: analyzeResponse_decision present_def)
next
  assume "normalizeText sw'' = []"
  then show "analyzeResponse t'' sw'' ew'' \<noteq> Safe"
    by (simp add: analyzeResponse_decision present_def)
qed

text \<open>Claim C10 at \<open>null\<close>, \<open>undefined\<close> and words made of punctuation.\<close>

theorem analyzeResponse_degenerate_inputs_witness:
  "normalizeText JNull = [] \<and>
   analyzeResponse JNull (JString ''pineapple'') (JString ''banana'') = Unknown \<and>
   normalizeText (JString ''?! ...'') = [] \<and>
   \<not> containsWord (JString ''help me'') (JString ''?! ...'') \<and>
   analyzeResponse (JString ''help me'') (JString ''pineapple'') JUndefined \<noteq> Escalate \<and>
   analyzeResponse (JString ''help me'') (JString ''--'') (JString ''banana'') \<noteq> Safe"
proof -
  have h1: "(\<forall>s. JNull \<noteq> JString s) \<or> JNull = JString []" by simp
  have h2: "\<forall>c\<in>set ''?! ...''. isSeparator c" by code_simp
  have h3: "normalizeText (JString ''?! ...'') = []" by code_simp
  have h4: "normalizeText JUndefined = []" by simp
  have h5: "normalizeText (JString ''--'') = []" by code_simp
  from analyzeResponse_degenerate_inputs
    [where x = JNull and sw = "JString ''pineapple''" and ew = "JString ''banana''"
       and p = "''?! ...''" and word = "JString ''?! ...''" and t = "JString ''help me''"
       and ew' = JUndefined and t' = "JString ''help me''" and sw' = "JString ''pineapple''"
       and sw'' = "JString ''--''" and t'' = "JString ''help me''" and ew'' = "JString ''banana''"]
    h1 h2 h3 h4 h5
  show ?thesis by blast
qed

section \<open>Claims about the provider callbacks\<close>

lemma obtainTranscript_appends:
  "\<exists>evs effs. event_log (snd (obtainTranscript e sid req w)) = event_log w @ evs \<and>
              trace (snd (obtainTranscript e sid req w)) = trace w @ effs \<and>
              \<not> list_ex isNotification effs"
  by (auto simp: obtainTranscript_def Let_def whisperFallback_def transcribeAudio_def logEvent_def
      split: sum.splits)

lemma recordingComplete_found:
  assumes "truthy (query_sessionId req)"
    and "getSession w (strOr (query_sessionId req) []) = Some s"
  shows "recordingComplete e req w =
     (if obtainedTranscript e req \<noteq> []
      then decide e (strOr (query_sessionId req) []) s ''transcriptionText'' (obtainedTranscript e req)
             (logEvent (strOr (query_sessionId req) []) ''transcription_received''
                [(''text'', PStr (obtainedTranscript e req)),
                 (''status'', optPval (body_TranscriptionStatus req))]
                (snd (obtainTranscript e (strOr (query_sessionId req) []) req w)))
      else logEvent (strOr (query_sessionId req) []) ''no_transcription_available'' []
             (snd (obtainTranscript e (strOr (query_sessionId req) []) req w)))"
proof -
  obtain tr w2 where ot: "obtainTranscript e (strOr (query_sessionId req) []) req w = (tr, w2)"
    by (cases "obtainTranscript e (strOr (query_sessionId req) []) req w")
  from ot have tr: "tr = obtainedTranscript e req"
    using obtainTranscript_fields(1) [of e "strOr (query_sessionId req) []" req w] by simp
  show ?thesis
    using assms by (simp add: recordingComplete_def ot) (simp add: tr Let_def)
qed

text \<open>
  Claim C1, as stated, fails. An active session receives a recording-complete callback
  with no provider transcript and a recording whose fallback transcription fails: the
  session stays \<open>active\<close> (it is not completed), and the event appended is named
  \<open>no_transcription_available\<close>, not \<open>no_transcript_available\<close>.
\<close>

theorem no_transcript_counterexample:
  "statusOf (ex_world Active) ''s1'' = Some Active \<and>
   obtainedTranscript ex_env (ex_recording None) = [] \<and>
   statusOf (recordingComplete ex_env (ex_recording None) (ex_world Active)) ''s1'' = Some Active \<and>
   map ev_type (event_log (recordingComplete ex_env (ex_recording None) (ex_world Active))) =
     [''recording_complete'', ''whisper_transcription_failed'', ''no_transcription_available'']"
  by code_simp

text \<open>
  Claim C1, amended. For every active session, when a recording-complete callback arrives
  and no transcript is obtainable (no provider text, and no recording or a fallback
  transcription that fails or returns nothing), the handler leaves every session row as
  it was, so the session stays \<open>active\<close>, and the last event it appends to the log is
  \<open>no_transcription_available\<close>.
\<close>

theorem recordingComplete_no_transcript:
  assumes "truthy (query_sessionId req)"
    and "getSession w (strOr (query_sessionId req) []) = Some s"
    and "status s = Active"
    and "obtainedTranscript e req = []"
  shows "sessions (recordingComplete e req w) = sessions w \<and>
         statusOf (recordingComplete e req w) (strOr (query_sessionId req) []) = Some Active \<and>
         (\<exists>evs. event_log (recordingComplete e req w) =
                  event_log w @ evs @ [Event (strOr (query_sessionId req) []) ''no_transcription_available'' []])"
proof -
  define sid where "sid = strOr (query_sessionId req) []"
  have rc: "recordingComplete e req w =
      logEvent sid ''no_transcription_available'' [] (snd (obtainTranscript e sid req w))"
    using recordingComplete_found [OF assms(1,2), of e] assms(4) by (simp add: sid_def)
  have s: "sessions (recordingComplete e req w) = sessions w"
    by (simp add: rc logEvent_fields obtainTranscript_fields)
  from s have "statusOf (recordingComplete e req w) sid = statusOf w sid"
    by (rule statusOf_cong)
  with assms(2,3) have st: "statusOf (recordingComplete e req w) sid = Some Active"
    by (simp add: statusOf_def sid_def)
  obtain evs where "event_log (snd (obtainTranscript e sid req w)) = event_log w @ evs"
    using obtainTranscript_appends [of e sid req w] by blast
  then have "event_log (recordingComplete e req w) =
      event_log w @ evs @ [Event sid ''no_transcription_available'' []]"
    by (simp add: rc logEvent_fields)
  with s st show ?thesis unfolding sid_def by blast
qed

text \<open>
  The amended claim C1 at the example session.
\<close>

theorem recordingComplete_no_transcript_witness:
  "truthy (query_sessionId (ex_recording None)) \<and>
   getSession (ex_world Active) ''s1'' = Some (ex_session Active) \<and>
   status (ex_session Active) = Active \<and>
   obtainedTranscript ex_env (ex_recording None) = [] \<and>
   sessions (recordingComplete ex_env (ex_recording None) (ex_world Active)) = sessions (ex_world Active) \<and>
   statusOf (recordingComplete ex_env (ex_recording None) (ex_world Active)) ''s1'' = Some Active"
proof -
  have h1: "truthy (query_sessionId (ex_recording None))" by code_simp
  have sid: "strOr (query_sessionId (ex_recording None)) [] = ''s1''" by code_simp
  have h2: "getSession (ex_world Active) ''s1'' = Some (ex_session Active)" by code_simp
  have h3: "status (ex_session Active) = Active" by code_simp
  have h4: "obtainedTranscript ex_env (ex_recording None) = []" by code_simp
  from recordingComplete_no_transcript [of "ex_recording None" "ex_world Active" "ex_session Active" ex_env]
    h1 h2 h3 h4 sid
  show ?thesis by simp
qed

lemma statusOf_transcriptionWebhook:
  "statusOf (transcriptionWebhook e req w) sid' = statusOf w sid' \<or>
   (\<exists>st. terminal st \<and> statusOf (transcriptionWebhook e req w) sid' = Some st)"
proof (cases "truthy (tr_query_sessionId req)")
  case False
  then show ?thesis by (simp add: transcriptionWebhook_def)
next
  case True
  define sid where "sid = strOr (tr_query_sessionId req) []"
  show ?thesis
  proof (cases "getSession w sid")
    case None
    then show ?thesis using True by (simp add: transcriptionWebhook_def sid_def)
  next
    case (Some s)
    define t where "t = strOr (tr_body_TranscriptionText req) (strOr (tr_body_transcriptionText req) [])"
    have tw: "transcriptionWebhook e req w =
        decide e sid s ''transcription'' t
          (logEvent sid ''transcription_received''
             [(''text'', PStr t), (''confidence'', optPval (tr_body_TranscriptionStatus req))] w)"
      using True Some by (simp add: transcriptionWebhook_def Let_def sid_def [symmetric] t_def)
    show ?thesis
    proof (cases "sid' = sid")
      case False
      then show ?thesis by (simp add: tw statusOf_decide statusOf_logEvent)
    next
      case True
      with Some have "statusOf (transcriptionWebhook e req w) sid' = Some (decidedStatus e s t)"
        by (simp add: tw statusOf_decide statusOf_logEvent) (simp add: statusOf_def)
      then show ?thesis using terminal_decidedStatus by blast
    qed
  qed
qed

lemma ladderEffects_notifies: "list_ex isNotification (ladderEffects e sid s cs p)"
  by (simp add: ladderEffects_def)

lemma classifyAndDecide_effects:
  assumes g: "getSession w sid = Some s"
  shows "\<exists>pre. \<not> list_ex isNotification pre \<and>
           trace (classifyAndDecide e sid key t w) =
             trace w @ pre @
             (if isDistressed (classifyResult e t)
              then ladderEffects e sid s (getEmergencyContacts w sid) (getPrimaryContact w sid)
              else [StatusWrite sid Completed])"
proof -
  obtain c w1 where cw: "classifyDistressIntent e t w = (c, w1)"
    by (cases "classifyDistressIntent e t w")
  from cw have c: "c = classifyResult e t"
    and s1: "sessions w1 = sessions w" and c1: "contacts w1 = contacts w"
    and t1: "trace w1 = trace w @ (if t = [] \<or> length (trim t) = 0 then [] else [ClassifyAttempt t])"
    using classifyDistressIntent_fields [of e t w] by simp_all
  define w2 where "w2 = logEvent sid ''openai_classification''
                      [(key, PStr t), (''score'', PNum (score c)),
                       (''reason'', PStr (reason c)), (''isDistressed'', PBool (isDistressed c))] w1"
  define w3 where "w3 = logEvent sid ''ai_distress_detected''
                        [(''score'', PNum (score c)), (''reason'', PStr (reason c))] w2"
  have cd: "classifyAndDecide e sid key t w =
      (if isDistressed c then triggerEscalation e sid w3 else updateSessionStatus e sid Completed w2)"
    by (simp add: classifyAndDecide_def cw Let_def w2_def w3_def)
  show ?thesis
  proof (cases "isDistressed c")
    case False
    define pre where "pre = (if t = [] \<or> length (trim t) = 0 then [] else [ClassifyAttempt t]) @
          [EventWrite (Event sid ''openai_classification''
                      [(key, PStr t), (''score'', PNum (score c)),
                       (''reason'', PStr (reason c)), (''isDistressed'', PBool (isDistressed c))])]"
    have "trace (classifyAndDecide e sid key t w) = trace w @ pre @ [StatusWrite sid Completed]"
      using False by (simp add: cd updateSessionStatus_fields w2_def logEvent_fields t1 pre_def)
    moreover have "\<not> list_ex isNotification pre"
      by (simp add: pre_def)
    ultimately have "\<not> list_ex isNotification pre \<and>
           trace (classifyAndDecide e sid key t w) =
             trace w @ pre @
             (if isDistressed (classifyResult e t)
              then ladderEffects e sid s (getEmergencyContacts w sid) (getPrimaryContact w sid)
              else [StatusWrite sid Completed])"
      using False c by simp
    then show ?thesis ..
  next
    case True
    define pre where "pre = (if t = [] \<or> length (trim t) = 0 then [] else [ClassifyAttempt t]) @
          [EventWrite (Event sid ''openai_classification''
                      [(key, PStr t), (''score'', PNum (score c)),
                       (''reason'', PStr (reason c)), (''isDistressed'', PBool (isDistressed c))]),
           EventWrite (Event sid ''ai_distress_detected''
                        [(''score'', PNum (score c)), (''reason'', PStr (reason c))])]"
    have s3: "sessions w3 = sessions w" and c3: "contacts w3 = contacts w"
      by (simp_all add: w3_def w2_def logEvent_fields s1 c1)
    from s3 g have g3: "getSession w3 sid = Some s"
      by (simp add: getSession_cong [OF s3])
    have ge: "getEmergencyContacts w3 sid = getEmergencyContacts w sid"
      using c3 by (rule getEmergencyContacts_cong)
    have gp: "getPrimaryContact w3 sid = getPrimaryContact w sid"
      using c3 by (rule getPrimaryContact_cong)
    have t3: "trace w3 = trace w @ pre"
      by (simp add: w3_def w2_def logEvent_fields t1 pre_def)
    have "trace (triggerEscalation e sid w3) =
        trace w3 @ ladderEffects e sid s (getEmergencyContacts w sid) (getPrimaryContact w sid)"
      using triggerEscalation_Some(4) [OF g3, of e] by (simp only: ge gp)
    with True have "trace (classifyAndDecide e sid key t w) =
        trace w @ pre @ ladderEffects e sid s (getEmergencyContacts w sid) (getPrimaryContact w sid)"
      by (simp add: cd t3)
    moreover have "\<not> list_ex isNotification pre"
      by (simp add: pre_def)
    ultimately have "\<not> list_ex isNotification pre \<and>
           trace (classifyAndDecide e sid key t w) =
             trace w @ pre @
             (if isDistressed (classifyResult e t)
              then ladderEffects e sid s (getEmergencyContacts w sid) (getPrimaryContact w sid)
              else [StatusWrite sid Completed])"
      using True c by simp
    then show ?thesis ..
  qed
qed

text \<open>
  Claim C5. For every active session and every recording-complete callback whose
  transcript is not empty and gets the keyword verdict \<open>unknown\<close>: the threshold is the
  double written \<open>0.7\<close>; the session becomes \<open>escalated\<close> when the classifier's score, a
  double, is at least that threshold (the comparison \<open>>=\<close> of doubles) and \<open>completed\<close>
  otherwise; notifications are attempted exactly in the first case, where the run ends
  with the whole escalation ladder; when the classifier gives no content or throws, the
  score is 0, which is below the threshold (so the session is completed); and a numeric
  score in the classifier's answer to a transcript that is not blank is compared after
  its rounding to a double.
\<close>

theorem unknown_transcript_classifier_threshold:
  assumes "truthy (query_sessionId req)"
    and "getSession w (strOr (query_sessionId req) []) = Some s"
    and "status s = Active"
    and "obtainedTranscript e req = t" and "t \<noteq> []"
    and "analyzeResponse (JString t) (JString (safe_word s)) (JString (escalation_word s)) = Unknown"
  shows "DISTRESS_THRESHOLD = toDouble (7 / 10) \<and>
         statusOf (recordingComplete e req w) (strOr (query_sessionId req) []) =
           Some (if jsGe (score (classifyResult e t)) DISTRESS_THRESHOLD
                 then Escalated else Completed) \<and>
         list_ex isNotification (newEffects w (recordingComplete e req w)) =
           jsGe (score (classifyResult e t)) DISTRESS_THRESHOLD \<and>
         (jsGe (score (classifyResult e t)) DISTRESS_THRESHOLD \<longrightarrow>
            (\<exists>pre. newEffects w (recordingComplete e req w) =
               pre @ ladderEffects e (strOr (query_sessionId req) []) s
                       (getEmergencyContacts w (strOr (query_sessionId req) []))
                       (getPrimaryContact w (strOr (query_sessionId req) [])))) \<and>
         (openai_result e t = ApiNoContent \<or> (\<exists>m. openai_result e t = ApiThrows m) \<longrightarrow>
            score (classifyResult e t) = Finite 0 \<and>
            \<not> jsGe (score (classifyResult e t)) DISTRESS_THRESHOLD) \<and>
         (length (trim t) \<noteq> 0 \<and> (\<exists>r. openai_result e t = ApiJson (ScoreNumber x) r) \<longrightarrow>
            score (classifyResult e t) = toDouble x)"
proof -
  define sid where "sid = strOr (query_sessionId req) []"
  define w2 where "w2 = snd (obtainTranscript e sid req w)"
  define wl where "wl = logEvent sid ''transcription_received''
                [(''text'', PStr t), (''status'', optPval (body_TranscriptionStatus req))] w2"
  have rc: "recordingComplete e req w = classifyAndDecide e sid ''transcriptionText'' t wl"
    using recordingComplete_found [OF assms(1,2), of e] assms(4,5,6)
    by (simp add: sid_def w2_def wl_def decide_def)
  have sl: "sessions wl = sessions w" and cl: "contacts wl = contacts w"
    by (simp_all add: wl_def w2_def logEvent_fields obtainTranscript_fields)
  have gl: "getSession wl sid = Some s"
    using assms(2) by (simp add: getSession_cong [OF sl] sid_def)
  have ge: "getEmergencyContacts wl sid = getEmergencyContacts w sid"
    using cl by (rule getEmergencyContacts_cong)
  have gp: "getPrimaryContact wl sid = getPrimaryContact w sid"
    using cl by (rule getPrimaryContact_cong)
  obtain effs where tl: "trace wl = trace w @ effs" and nl: "\<not> list_ex isNotification effs"
  proof -
    obtain effs0 where "trace w2 = trace w @ effs0" "\<not> list_ex isNotification effs0"
      using obtainTranscript_appends [of e sid req w] unfolding w2_def by blast
    then have "trace wl = trace w @ (effs0 @ [EventWrite (Event sid ''transcription_received''
                [(''text'', PStr t), (''status'', optPval (body_TranscriptionStatus req))])])"
      and "\<not> list_ex isNotification (effs0 @ [EventWrite (Event sid ''transcription_received''
                [(''text'', PStr t), (''status'', optPval (body_TranscriptionStatus req))])])"
      by (simp_all add: wl_def logEvent_fields)
    then show ?thesis using that by blast
  qed
  obtain pre where np: "\<not> list_ex isNotification pre"
    and tr: "trace (recordingComplete e req w) =
             trace wl @ pre @
             (if isDistressed (classifyResult e t)
              then ladderEffects e sid s (getEmergencyContacts w sid) (getPrimaryContact w sid)
              else [StatusWrite sid Completed])"
    using classifyAndDecide_effects [OF gl, of e "''transcriptionText''" t] unfolding rc ge gp by blast
  have ne: "newEffects w (recordingComplete e req w) =
      (effs @ pre) @
      (if isDistressed (classifyResult e t)
       then ladderEffects e sid s (getEmergencyContacts w sid) (getPrimaryContact w sid)
       else [StatusWrite sid Completed])"
    by (simp add: newEffects_def tr tl)
  have d: "isDistressed (classifyResult e t) = jsGe (score (classifyResult e t)) DISTRESS_THRESHOLD"
    by (rule classifyResult_isDistressed)
  have st: "statusOf (recordingComplete e req w) sid =
      Some (if jsGe (score (classifyResult e t)) DISTRESS_THRESHOLD then Escalated else Completed)"
    using gl by (simp add: rc statusOf_classifyAndDecide d) (simp add: statusOf_def)
  have n: "list_ex isNotification (newEffects w (recordingComplete e req w)) =
           jsGe (score (classifyResult e t)) DISTRESS_THRESHOLD"
    using nl np by (simp add: ne d [symmetric] ladderEffects_notifies)
  have l: "jsGe (score (classifyResult e t)) DISTRESS_THRESHOLD \<longrightarrow>
            (\<exists>pre. newEffects w (recordingComplete e req w) =
               pre @ ladderEffects e sid s (getEmergencyContacts w sid) (getPrimaryContact w sid))"
    using ne by (auto simp: d [symmetric])
  have u0: "openai_result e t = ApiNoContent \<or> (\<exists>m. openai_result e t = ApiThrows m) \<longrightarrow>
            score (classifyResult e t) = Finite 0"
    by (auto simp: classifyResult_def)
  have z: "\<not> jsGe (Finite 0) DISTRESS_THRESHOLD"
    by (simp add: DISTRESS_THRESHOLD_value)
  from u0 z have u: "openai_result e t = ApiNoContent \<or> (\<exists>m. openai_result e t = ApiThrows m) \<longrightarrow>
            score (classifyResult e t) = Finite 0 \<and>
            \<not> jsGe (score (classifyResult e t)) DISTRESS_THRESHOLD"
    by simp
  have x: "length (trim t) \<noteq> 0 \<and> (\<exists>r. openai_result e t = ApiJson (ScoreNumber x) r) \<longrightarrow>
            score (classifyResult e t) = toDouble x"
    using assms(5) by (auto simp: classifyResult_def Let_def)
  have th: "DISTRESS_THRESHOLD = toDouble (7 / 10)"
    by (rule DISTRESS_THRESHOLD_def)
  from th st n l u x show ?thesis
    unfolding sid_def by blast
qed

text \<open>
  Claim C5 at the scores of the specification: 0.71 gives \<open>escalated\<close>, 0.69 gives
  \<open>completed\<close>. The numeral 0.69999999999999996 denotes the same double as 0.7, so that
  score gives \<open>escalated\<close> too.
\<close>

theorem unknown_transcript_classifier_threshold_witness:
  "truthy (query_sessionId (ex_recording (Some ''I don't know''))) \<and>
   getSession (ex_world Active) ''s1'' = Some (ex_session Active) \<and>
   status (ex_session Active) = Active \<and>
   obtainedTranscript ex_env (ex_recording (Some ''I don't know'')) = ''I don't know'' \<and>
   analyzeResponse (JString ''I don't know'') (JString ''pineapple'') (JString ''banana'') = Unknown \<and>
   openai_result ex_env ''I don't know'' = ApiJson (ScoreNumber (71 / 100)) (Some ''sounds worried'') \<and>
   statusOf (recordingComplete ex_env (ex_recording (Some ''I don't know'')) (ex_world Active)) ''s1''
     = Some Escalated \<and>
   statusOf (recordingComplete (ex_env\<lparr>openai_result := \<lambda>_. ApiJson (ScoreNumber (69 / 100)) None\<rparr>)
               (ex_recording (Some ''I don't know'')) (ex_world Active)) ''s1''
     = Some Completed \<and>
   statusOf (recordingComplete
               (ex_env\<lparr>openai_result := \<lambda>_.
                  ApiJson (ScoreNumber (69999999999999996 / 100000000000000000)) None\<rparr>)
               (ex_recording (Some ''I don't know'')) (ex_world Active)) ''s1''
     = Some Escalated"
proof -
  let ?req = "ex_recording (Some ''I don't know'')"
  let ?e69 = "ex_env\<lparr>openai_result := \<lambda>_. ApiJson (ScoreNumber (69 / 100)) None\<rparr>"
  let ?e70 = "ex_env\<lparr>openai_result := \<lambda>_.
                  ApiJson (ScoreNumber (69999999999999996 / 100000000000000000)) None\<rparr>"
  have h1: "truthy (query_sessionId ?req)" by code_simp
  have sid: "strOr (query_sessionId ?req) [] = ''s1''" by code_simp
  have h2: "getSession (ex_world Active) (strOr (query_sessionId ?req) []) = Some (ex_session Active)"
    unfolding sid by code_simp
  have h3: "status (ex_session Active) = Active" by code_simp
  have h4: "obtainedTranscript ex_env ?req = ''I don't know''" by code_simp
  have h4': "obtainedTranscript ?e69 ?req = ''I don't know''"
    by (simp add: obtainedTranscript_def ex_recording_def)
  have h4'': "obtainedTranscript ?e70 ?req = ''I don't know''"
    by (simp add: obtainedTranscript_def ex_recording_def)
  have h5: "''I don't know'' \<noteq> []" by simp
  have sw: "safe_word (ex_session Active) = ''pineapple''" "escalation_word (ex_session Active) = ''banana''"
    by (simp_all add: ex_session_def)
  have h6: "analyzeResponse (JString ''I don't know'') (JString (safe_word (ex_session Active)))
              (JString (escalation_word (ex_session Active))) = Unknown"
    unfolding sw by code_simp
  have t: "length (trim ''I don't know'') \<noteq> 0" by code_simp
  have a71: "openai_result ex_env ''I don't know'' = ApiJson (ScoreNumber (71 / 100)) (Some ''sounds worried'')"
    by (simp add: ex_env_def)
  have a69: "openai_result ?e69 ''I don't know'' = ApiJson (ScoreNumber (69 / 100)) None"
    by simp
  have a70: "openai_result ?e70 ''I don't know'' =
               ApiJson (ScoreNumber (69999999999999996 / 100000000000000000)) None"
    by simp
  note A = unknown_transcript_classifier_threshold
      [of ?req "ex_world Active" "ex_session Active" ex_env "''I don't know''" "71 / 100",
       OF h1 h2 h3 h4 h5 h6]
  note B = unknown_transcript_classifier_threshold
      [of ?req "ex_world Active" "ex_session Active" ?e69 "''I don't know''" "69 / 100",
       OF h1 h2 h3 h4' h5 h6]
  note C = unknown_transcript_classifier_threshold
      [of ?req "ex_world Active" "ex_session Active" ?e70 "''I don't know''"
          "69999999999999996 / 100000000000000000",
       OF h1 h2 h3 h4'' h5 h6]
  from A t a71 have s71: "score (classifyResult ex_env ''I don't know'') = toDouble (71 / 100)" by blast
  from B t a69 have s69: "score (classifyResult ?e69 ''I don't know'') = toDouble (69 / 100)" by blast
  from C t a70 have s70: "score (classifyResult ?e70 ''I don't know'') =
                            toDouble (69999999999999996 / 100000000000000000)" by blast
  from A have th: "DISTRESS_THRESHOLD = toDouble (7 / 10)" by blast
  have c71: "jsGe (toDouble (71 / 100)) (toDouble (7 / 10))" by code_simp
  have c69: "\<not> jsGe (toDouble (69 / 100)) (toDouble (7 / 10))" by code_simp
  have c70: "jsGe (toDouble (69999999999999996 / 100000000000000000)) (toDouble (7 / 10))"
    by code_simp
  from A have "statusOf (recordingComplete ex_env ?req (ex_world Active)) ''s1'' = Some Escalated"
    unfolding sid s71 th using c71 by simp
  moreover from B have "statusOf (recordingComplete ?e69 ?req (ex_world Active)) ''s1'' = Some Completed"
    unfolding sid s69 th using c69 by simp
  moreover from C have "statusOf (recordingComplete ?e70 ?req (ex_world Active)) ''s1'' = Some Escalated"
    unfolding sid s70 th using c70 by simp
  ultimately show ?thesis
    using h1 h2 h3 h4 h6 a71 unfolding sid sw by blast
qed

section \<open>Claims about activation, the escalation ladder and the late location\<close>

lemma find_append_None: "find P xs = None \<Longrightarrow> find P (xs @ ys) = find P ys"
  by (induction xs) (auto split: if_splits)

lemma enumerate_map_enumerate:
  "enumerate n (map (\<lambda>(i, c). h i c) (enumerate n cs)) = map (\<lambda>(i, c). (i, h i c)) (enumerate n cs)"
  by (induction cs arbitrary: n) simp_all

lemma stored_rows:
  assumes "cs \<noteq> []"
  shows "map (\<lambda>(i, c). \<lparr>session_id = sid, phone_number = phone c,
                         is_primary = isPrimary c, display_order = i\<rparr>)
             (enumerate 0 (contactList cs)) =
         map (\<lambda>(i, c). \<lparr>session_id = sid, phone_number = normalizePhone (phone c),
                         is_primary = (isPrimary c \<or> i = 0), display_order = i\<rparr>)
             (enumerate 0 cs)"
proof -
  from assms have l: "0 < length cs" by simp
  have "enumerate 0 (contactList cs) =
        map (\<lambda>(i, c). (i, \<lparr>phone = normalizePhone (phone c),
                            isPrimary = (isPrimary c \<or> (i = 0 \<and> length cs > 0))\<rparr>))
            (enumerate 0 cs)"
    unfolding contactList_def by (rule enumerate_map_enumerate)
  then show ?thesis using l by (simp add: case_prod_beta)
qed

lemma activate_accepted:
  assumes "fst (activate e req w) = 201"
  shows "req_contacts req \<noteq> []"
    and "contacts (snd (activate e req w)) =
           contacts w @
           map (\<lambda>(i, c). \<lparr>session_id = uuid e, phone_number = phone c,
                           is_primary = isPrimary c, display_order = i\<rparr>)
               (enumerate 0 (contactList (req_contacts req)))"
    and "\<exists>s. sessions (snd (activate e req w)) = sessions w @ [s] \<and> sess_id s = uuid e \<and>
             user_phone s = normalizePhone (strOr (req_userPhone req) []) \<and> status s = Pending"
    and "trace (snd (activate e req w)) =
           trace w @ [EventWrite (Event (uuid e) ''session_activated''
              [(''userPhone'', PStr (normalizePhone (strOr (req_userPhone req) []))),
               (''scheduledAt'', PTime (the (req_scheduledAt req))),
               (''contactCount'', PNum (Finite (of_nat (length (contactList (req_contacts req))))))])]"
    and "isValidPhone e (normalizePhone (strOr (req_userPhone req) []))"
    and "\<forall>c\<in>set (contactList (req_contacts req)). isValidPhone e (phone c)"
  using assms
  by (auto simp: activate_def Let_def createSession_def addEmergencyContacts_def logEvent_def
      list_ex_iff split: if_splits option.splits)

lemma no_emergencyCall_in_alerts:
  "filter isEmergencyCall (concat (map (\<lambda>c. [SmsAttempt (f c) body, EventWrite (g c)]) cs)) = []"
  by (induction cs) simp_all

lemma emergencyCalls_ladderEffects:
  "filter isEmergencyCall (ladderEffects e sid s cs primary) =
     (case primary of
        None \<Rightarrow> []
      | Some p \<Rightarrow> [EmergencyCallAttempt (phone_number p) sid (user_phone s)])"
  by (simp add: ladderEffects_def no_emergencyCall_in_alerts split: option.splits)

text \<open>
  Claim C3, what the code does. For every activation request the handler accepts (it
  answers 201, so every number passed the validation), the new identifier being fresh: the
  rows stored for the session are the request's contacts in order, the first one flagged
  primary whatever the request says and the others flagged as the request says;
  \<open>getPrimaryContact\<close> returns the row of the request's first contact; and an escalation
  of the session places exactly one Level-2 call, to the request's first contact. So when
  the request flags only a contact that is not the first, the call does not go to the
  contact it flagged.
\<close>

theorem activate_calls_first_contact:
  assumes "fst (activate e req w) = 201"
    and "\<forall>s\<in>set (sessions w). sess_id s \<noteq> uuid e"
    and "\<forall>c\<in>set (contacts w). session_id c \<noteq> uuid e"
  shows "req_contacts req \<noteq> [] \<and>
         (\<forall>c\<in>set (req_contacts req). isMobilePhone e (normalizePhone (normalizePhone (phone c)))) \<and>
         filter (\<lambda>c. session_id c = uuid e) (contacts (snd (activate e req w))) =
           map (\<lambda>(i, c). \<lparr>session_id = uuid e, phone_number = normalizePhone (phone c),
                           is_primary = (isPrimary c \<or> i = 0), display_order = i\<rparr>)
               (enumerate 0 (req_contacts req)) \<and>
         getPrimaryContact (snd (activate e req w)) (uuid e) =
           Some \<lparr>session_id = uuid e, phone_number = normalizePhone (phone (hd (req_contacts req))),
                 is_primary = True, display_order = 0\<rparr> \<and>
         statusOf (snd (activate e req w)) (uuid e) = Some Pending \<and>
         (\<forall>e'. filter isEmergencyCall
                  (newEffects (snd (activate e req w))
                     (triggerEscalation e' (uuid e) (snd (activate e req w)))) =
                [EmergencyCallAttempt (normalizePhone (phone (hd (req_contacts req)))) (uuid e)
                   (normalizePhone (strOr (req_userPhone req) []))])"
proof -
  define sid where "sid = uuid e"
  define cs where "cs = req_contacts req"
  define w' where "w' = snd (activate e req w)"
  define rows where "rows =
      map (\<lambda>(i, c). \<lparr>session_id = sid, phone_number = normalizePhone (phone c),
                      is_primary = (isPrimary c \<or> i = 0), display_order = i\<rparr>)
          (enumerate 0 cs)"
  define first where "first =
      \<lparr>session_id = sid, phone_number = normalizePhone (phone (hd cs)),
       is_primary = True, display_order = 0\<rparr>"
  note acc = activate_accepted [OF assms(1)]
  have ne: "cs \<noteq> []" unfolding cs_def by (rule acc(1))
  have cw: "contacts w' = contacts w @ rows"
    unfolding w'_def rows_def sid_def cs_def
    by (simp only: acc(2) stored_rows [OF acc(1)])
  have valid: "\<forall>c\<in>set cs. isMobilePhone e (normalizePhone (normalizePhone (phone c)))"
  proof
    fix c assume "c \<in> set cs"
    then have "c \<in> snd ` set (enumerate 0 cs)"
      by (simp only: set_map [symmetric] map_snd_enumerate)
    then obtain p where "p \<in> set (enumerate 0 cs)" and "c = snd p" by blast
    then have "(fst p, c) \<in> set (enumerate 0 cs)" by simp
    then obtain i where "(i, c) \<in> set (enumerate 0 cs)" ..
    then have "\<lparr>phone = normalizePhone (phone c),
                isPrimary = (isPrimary c \<or> (i = 0 \<and> length cs > 0))\<rparr> \<in> set (contactList cs)"
      unfolding contactList_def by force
    with acc(6) have "isValidPhone e (normalizePhone (phone c))"
      unfolding cs_def by fastforce
    then show "isMobilePhone e (normalizePhone (normalizePhone (phone c)))"
      by (simp add: isValidPhone_def)
  qed
  have old: "filter (\<lambda>c. session_id c = sid) (contacts w) = []"
    using assms(3) by (simp add: sid_def filter_empty_conv)
  have new: "filter (\<lambda>c. session_id c = sid) rows = rows"
    by (auto simp: rows_def filter_id_conv)
  have B: "filter (\<lambda>c. session_id c = sid) (contacts w') = rows"
    by (simp add: cw old new)
  from ne obtain c cs' where ccs: "cs = c # cs'" by (cases cs) auto
  have rf: "rows = first # tl rows"
    by (simp add: rows_def first_def ccs)
  have fo: "find (\<lambda>c. session_id c = sid \<and> is_primary c) (contacts w) = None"
    using assms(3) by (auto simp: find_None_iff sid_def)
  have "find (\<lambda>c. session_id c = sid \<and> is_primary c) (contacts w') =
        find (\<lambda>c. session_id c = sid \<and> is_primary c) rows"
    unfolding cw using fo by (rule find_append_None)
  also have "\<dots> = Some first"
    by (subst rf) (simp add: first_def)
  finally have C: "getPrimaryContact w' sid = Some first"
    by (simp add: getPrimaryContact_def)
  from acc(3) obtain s where sw: "sessions w' = sessions w @ [s]" and si: "sess_id s = sid"
    and su: "user_phone s = normalizePhone (strOr (req_userPhone req) [])"
    and sp: "status s = Pending"
    unfolding w'_def sid_def by blast
  have so: "find (\<lambda>s. sess_id s = sid) (sessions w) = None"
    using assms(2) by (auto simp: find_None_iff sid_def)
  have "find (\<lambda>s. sess_id s = sid) (sessions w') = find (\<lambda>s. sess_id s = sid) [s]"
    unfolding sw using so by (rule find_append_None)
  then have gs: "getSession w' sid = Some s"
    by (simp add: getSession_def si)
  then have E: "statusOf w' sid = Some Pending"
    by (simp add: statusOf_def sp)
  have D: "filter isEmergencyCall (newEffects w' (triggerEscalation e' sid w')) =
           [EmergencyCallAttempt (normalizePhone (phone (hd cs))) sid
              (normalizePhone (strOr (req_userPhone req) []))]" for e'
    by (simp add: newEffects_def triggerEscalation_Some(4) [OF gs] emergencyCalls_ladderEffects
        C su first_def)
  from ne valid B C E D show ?thesis
    unfolding sid_def cs_def w'_def rows_def first_def by blast
qed

text \<open>
  Claim C3 at an activation request with two contacts whose numbers pass the validation
  and in which only the second is flagged primary: the request is accepted, both rows end
  up flagged, \<open>getPrimaryContact\<close> returns the first, and the only Level-2 call of an
  escalation goes to the first contact; none goes to the contact the request flagged.
\<close>

theorem activate_calls_first_contact_witness:
  "map phone (req_contacts ex_activate) = [''2025550102'', ''2025550103''] \<and>
   map isPrimary (req_contacts ex_activate) = [False, True] \<and>
   fst (activate ex_env ex_activate ex_empty) = 201 \<and>
   isMobilePhone ex_env ''+12025550102'' \<and> isMobilePhone ex_env ''+12025550103'' \<and>
   filter (\<lambda>c. session_id c = ''s1'') (contacts (snd (activate ex_env ex_activate ex_empty))) =
     [\<lparr>session_id = ''s1'', phone_number = ''+12025550102'', is_primary = True, display_order = 0\<rparr>,
      \<lparr>session_id = ''s1'', phone_number = ''+12025550103'', is_primary = True, display_order = 1\<rparr>] \<and>
   map_option phone_number (getPrimaryContact (snd (activate ex_env ex_activate ex_empty)) ''s1'') =
     Some ''+12025550102'' \<and>
   filter isEmergencyCall
     (newEffects (snd (activate ex_env ex_activate ex_empty))
        (triggerEscalation ex_env ''s1'' (snd (activate ex_env ex_activate ex_empty)))) =
     [EmergencyCallAttempt ''+12025550102'' ''s1'' ''+12025550101''] \<and>
   EmergencyCallAttempt ''+12025550103'' ''s1'' ''+12025550101''
     \<notin> set (newEffects (snd (activate ex_env ex_activate ex_empty))
              (triggerEscalation ex_env ''s1'' (snd (activate ex_env ex_activate ex_empty))))"
proof -
  let ?w = "snd (activate ex_env ex_activate ex_empty)"
  have h1: "fst (activate ex_env ex_activate ex_empty) = 201" by code_simp
  have h2: "\<forall>s\<in>set (sessions ex_empty). sess_id s \<noteq> uuid ex_env" by (simp add: ex_empty_def)
  have h3: "\<forall>c\<in>set (contacts ex_empty). session_id c \<noteq> uuid ex_env" by (simp add: ex_empty_def)
  have id: "uuid ex_env = ''s1''" by (simp add: ex_env_def)
  have rc: "req_contacts ex_activate =
      [\<lparr>phone = ''2025550102'', isPrimary = False\<rparr>, \<lparr>phone = ''2025550103'', isPrimary = True\<rparr>]"
    by (simp add: ex_activate_def)
  have n1: "normalizePhone ''2025550102'' = ''+12025550102''" by code_simp
  have n2: "normalizePhone ''2025550103'' = ''+12025550103''" by code_simp
  have n3: "normalizePhone ''+12025550102'' = ''+12025550102''" by code_simp
  have n4: "normalizePhone ''+12025550103'' = ''+12025550103''" by code_simp
  have nu: "normalizePhone (strOr (req_userPhone ex_activate) []) = ''+12025550101''" by code_simp
  note T = activate_calls_first_contact [OF h1 h2 h3, unfolded id rc]
  from T have v: "isMobilePhone ex_env ''+12025550102'' \<and> isMobilePhone ex_env ''+12025550103''"
    by (simp add: n1 n2 n3 n4)
  from T have rows: "filter (\<lambda>c. session_id c = ''s1'') (contacts ?w) =
     [\<lparr>session_id = ''s1'', phone_number = ''+12025550102'', is_primary = True, display_order = 0\<rparr>,
      \<lparr>session_id = ''s1'', phone_number = ''+12025550103'', is_primary = True, display_order = 1\<rparr>]"
    by (simp add: n1 n2)
  from T have gp: "map_option phone_number (getPrimaryContact ?w ''s1'') = Some ''+12025550102''"
    by (simp add: n1)
  from T have "\<forall>e'. filter isEmergencyCall (newEffects ?w (triggerEscalation e' ''s1'' ?w)) =
     [EmergencyCallAttempt ''+12025550102'' ''s1'' ''+12025550101'']"
    by (simp add: n1 nu)
  then have calls: "filter isEmergencyCall (newEffects ?w (triggerEscalation ex_env ''s1'' ?w)) =
     [EmergencyCallAttempt ''+12025550102'' ''s1'' ''+12025550101'']" ..
  have "EmergencyCallAttempt ''+12025550103'' ''s1'' ''+12025550101''
          \<notin> set (filter isEmergencyCall (newEffects ?w (triggerEscalation ex_env ''s1'' ?w)))"
    unfolding calls by simp
  then have none: "EmergencyCallAttempt ''+12025550103'' ''s1'' ''+12025550101''
          \<notin> set (newEffects ?w (triggerEscalation ex_env ''s1'' ?w))"
    by simp
  from h1 v rows gp calls none show ?thesis
    by (simp add: rc)
qed

lemma ev_type_alertEvent:
  "ev_type (alertEvent e sid body c) = ''sms_sent'' \<or> ev_type (alertEvent e sid body c) = ''sms_failed''"
  by (simp add: alertEvent_def split: sum.splits)

lemma ev_type_locationRequestEvent:
  "ev_type (locationRequestEvent e sid s) \<noteq> ''sms_sent'' \<and>
   ev_type (locationRequestEvent e sid s) \<noteq> ''sms_failed''"
  by (simp add: locationRequestEvent_def split: sum.splits)

lemma ev_type_primaryCallEvent:
  "ev_type (primaryCallEvent e sid s loc p) \<noteq> ''sms_sent'' \<and>
   ev_type (primaryCallEvent e sid s loc p) \<noteq> ''sms_failed''"
  by (simp add: primaryCallEvent_def split: sum.splits)

lemma filter_alertEvents:
  "filter (\<lambda>ev. ev_type ev = ''sms_sent'' \<or> ev_type ev = ''sms_failed'') (map (alertEvent e sid body) cs)
     = map (alertEvent e sid body) cs"
  using ev_type_alertEvent by (induction cs) auto

text \<open>
  Claim C8. For every session found and whatever the provider answers to each request:
  the first thing \<open>triggerEscalation\<close> does is to write the status \<open>escalated\<close>, before
  any notification; an alert is attempted for every emergency contact; a failed send is
  logged as \<open>sms_failed\<close> under that contact's number with the error, a successful one as
  \<open>sms_sent\<close> under that contact's number; the \<open>sms_sent\<close> and \<open>sms_failed\<close> events
  of the run are exactly one per contact, in the contacts' order; and the call to the
  primary contact is attempted and its outcome logged.
\<close>

theorem triggerEscalation_failure_isolation:
  assumes "getSession w sid = Some s"
  shows "(\<exists>rest. newEffects w (triggerEscalation e sid w) = StatusWrite sid Escalated # rest) \<and>
         statusOf (triggerEscalation e sid w) sid = Some Escalated \<and>
         (\<forall>c\<in>set (getEmergencyContacts w sid).
            SmsAttempt (phone_number c) (smsBody (user_phone s) (sessionLocation s))
              \<in> set (newEffects w (triggerEscalation e sid w)) \<and>
            (\<forall>err. sendSMS_result e (phone_number c) (smsBody (user_phone s) (sessionLocation s)) = Inl err \<longrightarrow>
               Event sid ''sms_failed'' [(''to'', PStr (phone_number c)), (''error'', PStr err)]
                 \<in> set (newEvents w (triggerEscalation e sid w))) \<and>
            (\<forall>m. sendSMS_result e (phone_number c) (smsBody (user_phone s) (sessionLocation s)) = Inr m \<longrightarrow>
               Event sid ''sms_sent'' [(''to'', PStr (phone_number c)), (''isPrimary'', PBool (is_primary c))]
                 \<in> set (newEvents w (triggerEscalation e sid w)))) \<and>
         filter (\<lambda>ev. ev_type ev = ''sms_sent'' \<or> ev_type ev = ''sms_failed'')
                (newEvents w (triggerEscalation e sid w)) =
           map (alertEvent e sid (smsBody (user_phone s) (sessionLocation s))) (getEmergencyContacts w sid) \<and>
         (\<forall>p. getPrimaryContact w sid = Some p \<longrightarrow>
            EmergencyCallAttempt (phone_number p) sid (user_phone s)
              \<in> set (newEffects w (triggerEscalation e sid w)) \<and>
            primaryCallEvent e sid s (sessionLocation s) p
              \<in> set (newEvents w (triggerEscalation e sid w)))"
proof -
  define body where "body = smsBody (user_phone s) (sessionLocation s)"
  define cs where "cs = getEmergencyContacts w sid"
  define w' where "w' = triggerEscalation e sid w"
  have ne: "newEffects w w' = ladderEffects e sid s cs (getPrimaryContact w sid)"
    by (simp add: newEffects_def w'_def cs_def triggerEscalation_Some(4) [OF assms])
  have nv: "newEvents w w' =
           [Event sid ''escalation_triggered''
              [(''userPhone'', PStr (user_phone s)), (''location'', optPval (sessionLocation s)),
               (''timestamp'', PTime (now e))],
            locationRequestEvent e sid s] @
           map (alertEvent e sid body) cs @
           (case getPrimaryContact w sid of None \<Rightarrow> []
            | Some p \<Rightarrow> [primaryCallEvent e sid s (sessionLocation s) p])"
    by (simp add: newEvents_def w'_def cs_def body_def triggerEscalation_Some(5) [OF assms])
  have 1: "\<exists>rest. newEffects w w' = StatusWrite sid Escalated # rest"
    by (simp add: ne ladderEffects_def)
  have 2: "statusOf w' sid = Some Escalated"
    using assms by (simp add: w'_def statusOf_triggerEscalation) (simp add: statusOf_def)
  have 3: "SmsAttempt (phone_number c) body \<in> set (newEffects w w')" if "c \<in> set cs" for c
    using that by (auto simp: ne ladderEffects_def body_def)
  have av: "alertEvent e sid body c \<in> set (newEvents w w')" if "c \<in> set cs" for c
    using that by (simp add: nv)
  have 4: "Event sid ''sms_failed'' [(''to'', PStr (phone_number c)), (''error'', PStr err)]
             \<in> set (newEvents w w')"
    if "c \<in> set cs" "sendSMS_result e (phone_number c) body = Inl err" for c err
    using av [OF that(1)] that(2) by (simp add: alertEvent_def)
  have 5: "Event sid ''sms_sent'' [(''to'', PStr (phone_number c)), (''isPrimary'', PBool (is_primary c))]
             \<in> set (newEvents w w')"
    if "c \<in> set cs" "sendSMS_result e (phone_number c) body = Inr m" for c m
    using av [OF that(1)] that(2) by (simp add: alertEvent_def)
  have 6: "filter (\<lambda>ev. ev_type ev = ''sms_sent'' \<or> ev_type ev = ''sms_failed'') (newEvents w w')
            = map (alertEvent e sid body) cs"
    using ev_type_locationRequestEvent [of e sid s] ev_type_primaryCallEvent [of e sid s]
    by (simp add: nv filter_alertEvents split: option.splits)
  have 7: "EmergencyCallAttempt (phone_number p) sid (user_phone s) \<in> set (newEffects w w') \<and>
           primaryCallEvent e sid s (sessionLocation s) p \<in> set (newEvents w w')"
    if "getPrimaryContact w sid = Some p" for p
    using that by (simp add: ne nv ladderEffects_def)
  from 1 2 3 4 5 6 7 show ?thesis
    unfolding body_def cs_def w'_def by blast
qed

text \<open>
  Claim C8 where the send to the first contact fails and the send to the second succeeds:
  both outcomes are logged and the primary contact is called.
\<close>

theorem triggerEscalation_failure_isolation_witness:
  "getSession (ex_world Active) ''s1'' = Some (ex_session Active) \<and>
   statusOf (triggerEscalation ex_env ''s1'' (ex_world Active)) ''s1'' = Some Escalated \<and>
   Event ''s1'' ''sms_failed'' [(''to'', PStr ''+12025550102''), (''error'', PStr ''unreachable'')]
     \<in> set (newEvents (ex_world Active) (triggerEscalation ex_env ''s1'' (ex_world Active))) \<and>
   Event ''s1'' ''sms_sent'' [(''to'', PStr ''+12025550103''), (''isPrimary'', PBool False)]
     \<in> set (newEvents (ex_world Active) (triggerEscalation ex_env ''s1'' (ex_world Active))) \<and>
   EmergencyCallAttempt ''+12025550102'' ''s1'' ''+12025550101''
     \<in> set (newEffects (ex_world Active) (triggerEscalation ex_env ''s1'' (ex_world Active)))"
proof -
  let ?A = "\<lparr>session_id = ''s1'', phone_number = ''+12025550102'', is_primary = True, display_order = 0\<rparr>"
  let ?B = "\<lparr>session_id = ''s1'', phone_number = ''+12025550103'', is_primary = False, display_order = 1\<rparr>"
  let ?body = "smsBody (user_phone (ex_session Active)) (sessionLocation (ex_session Active))"
  have h: "getSession (ex_world Active) ''s1'' = Some (ex_session Active)" by code_simp
  have cs: "getEmergencyContacts (ex_world Active) ''s1'' = [?A, ?B]" by code_simp
  have gp: "getPrimaryContact (ex_world Active) ''s1'' = Some ?A" by code_simp
  have up: "user_phone (ex_session Active) = ''+12025550101''" by (simp add: ex_session_def)
  have ra: "sendSMS_result ex_env (phone_number ?A) ?body = Inl ''unreachable''"
    by (simp add: ex_env_def)
  have rb: "sendSMS_result ex_env (phone_number ?B) ?body = Inr ''SM1''"
    by (simp add: ex_env_def)
  note T = triggerEscalation_failure_isolation [OF h, of ex_env, unfolded cs gp]
  from T have 1: "statusOf (triggerEscalation ex_env ''s1'' (ex_world Active)) ''s1'' = Some Escalated"
    by blast
  from T ra have 2: "Event ''s1'' ''sms_failed'' [(''to'', PStr (phone_number ?A)), (''error'', PStr ''unreachable'')]
     \<in> set (newEvents (ex_world Active) (triggerEscalation ex_env ''s1'' (ex_world Active)))"
    by (meson list.set_intros(1))
  from T rb have 3: "Event ''s1'' ''sms_sent'' [(''to'', PStr (phone_number ?B)), (''isPrimary'', PBool (is_primary ?B))]
     \<in> set (newEvents (ex_world Active) (triggerEscalation ex_env ''s1'' (ex_world Active)))"
    by (meson list.set_intros)
  from T have 4: "EmergencyCallAttempt (phone_number ?A) ''s1'' (user_phone (ex_session Active))
     \<in> set (newEffects (ex_world Active) (triggerEscalation ex_env ''s1'' (ex_world Active)))"
    by blast
  from h 1 2 3 4 show ?thesis by (simp add: up)
qed

lemma sublist_updatedSmsBody: "sublist l (updatedSmsBody p l)"
proof -
  have "updatedSmsBody p l =
      (sirenRecoded @ '' GUARDIAN AI - LOCATION UPDATE '' @ sirenRecoded @ nl @ nl @
       ''User '' @ p @ '' has provided their location.'' @ nl @ nl @ ''Location: '') @ l @
      (nl @ nl @ ''Please check on them immediately.'' @ nl @ nl @
       ''This is an automated alert from Guardian AI.'')"
    by (simp add: updatedSmsBody_def)
  then show ?thesis by (metis sublist_appendI)
qed

lemma set_getEmergencyContacts:
  "set (getEmergencyContacts w sid) = {c \<in> set (contacts w). session_id c = sid}"
  by (auto simp: getEmergencyContacts_def)

lemma length_getEmergencyContacts:
  "length (getEmergencyContacts w sid) = length (filter (\<lambda>c. session_id c = sid) (contacts w))"
  by (simp add: getEmergencyContacts_def)

lemma filter_locationUpdate_notifications:
  "filter isNotification (concat (map (\<lambda>c. [SmsAttempt (f c) body, EventWrite (g c)]) cs)) =
     map (\<lambda>c. SmsAttempt (f c) body) cs"
  by (induction cs) simp_all

text \<open>
  Claim C9. For every session (whatever its status) and every submitted location whose
  trimmed text has 1 to 500 characters: the request succeeds; the trimmed text is stored
  as the session's location; every session row is as before except for \<open>location\<close> and
  \<open>updated_at\<close> of this session, so every status is unchanged; the contacts are unchanged;
  the alert text contains the new location; the run writes the location, logs
  \<open>location_submitted\<close>, and then for every emergency contact, in order, attempts the
  alert and logs its outcome, and the event log grows by exactly these events; for every
  contact row of the session in the store the alert is attempted at that row's number, a
  failed send is logged as \<open>location_update_sms_failed\<close> and a successful one as
  \<open>location_update_sms_sent\<close> under that number; and the notifications of the run are
  exactly one alert per contact row of the session.
\<close>

theorem sendLocation_frame:
  assumes "truthy (loc_body_sessionId req)"
    and "getSession w (strOr (loc_body_sessionId req) []) = Some s"
    and "l = trim (strOr (loc_body_location req) [])"
    and "1 \<le> length l" and "length l \<le> 500"
  shows "fst (sendLocation e req w) = 200 \<and>
         sessions (snd (sendLocation e req w)) =
           map (\<lambda>r. if sess_id r = sess_id s then r\<lparr>location := Some l, updated_at := now e\<rparr> else r)
               (sessions w) \<and>
         getSession (snd (sendLocation e req w)) (sess_id s) =
           Some (s\<lparr>location := Some l, updated_at := now e\<rparr>) \<and>
         (\<forall>sid'. statusOf (snd (sendLocation e req w)) sid' = statusOf w sid') \<and>
         contacts (snd (sendLocation e req w)) = contacts w \<and>
         sublist l (updatedSmsBody (user_phone s) l) \<and>
         newEffects w (snd (sendLocation e req w)) =
           LocationWrite (sess_id s) l #
           EventWrite (Event (sess_id s) ''location_submitted''
                         [(''location'', PStr l), (''submittedAt'', PTime (now e))]) #
           concat (map (\<lambda>c. [SmsAttempt (phone_number c) (updatedSmsBody (user_phone s) l),
                              EventWrite (locationUpdateEvent e (sess_id s)
                                            (updatedSmsBody (user_phone s) l) l c)])
                    (getEmergencyContacts w (sess_id s))) \<and>
         event_log (snd (sendLocation e req w)) =
           event_log w @
           Event (sess_id s) ''location_submitted''
             [(''location'', PStr l), (''submittedAt'', PTime (now e))] #
           map (locationUpdateEvent e (sess_id s) (updatedSmsBody (user_phone s) l) l)
               (getEmergencyContacts w (sess_id s)) \<and>
         (\<forall>c\<in>set (getEmergencyContacts w (sess_id s)).
            (\<forall>err. sendSMS_result e (phone_number c) (updatedSmsBody (user_phone s) l) = Inl err \<longrightarrow>
               Event (sess_id s) ''location_update_sms_failed''
                 [(''to'', PStr (phone_number c)), (''error'', PStr err)]
                 \<in> set (newEvents w (snd (sendLocation e req w)))) \<and>
            (\<forall>m. sendSMS_result e (phone_number c) (updatedSmsBody (user_phone s) l) = Inr m \<longrightarrow>
               Event (sess_id s) ''location_update_sms_sent''
                 [(''to'', PStr (phone_number c)), (''location'', PStr l)]
                 \<in> set (newEvents w (snd (sendLocation e req w))))) \<and>
         (\<forall>c\<in>set (contacts w). session_id c = sess_id s \<longrightarrow>
            SmsAttempt (phone_number c) (updatedSmsBody (user_phone s) l)
              \<in> set (newEffects w (snd (sendLocation e req w))) \<and>
            (\<forall>err. sendSMS_result e (phone_number c) (updatedSmsBody (user_phone s) l) = Inl err \<longrightarrow>
               Event (sess_id s) ''location_update_sms_failed''
                 [(''to'', PStr (phone_number c)), (''error'', PStr err)]
                 \<in> set (event_log (snd (sendLocation e req w)))) \<and>
            (\<forall>m. sendSMS_result e (phone_number c) (updatedSmsBody (user_phone s) l) = Inr m \<longrightarrow>
               Event (sess_id s) ''location_update_sms_sent''
                 [(''to'', PStr (phone_number c)), (''location'', PStr l)]
                 \<in> set (event_log (snd (sendLocation e req w))))) \<and>
         length (filter isNotification (newEffects w (snd (sendLocation e req w)))) =
           length (filter (\<lambda>c. session_id c = sess_id s) (contacts w)) \<and>
         (\<forall>x\<in>set (filter isNotification (newEffects w (snd (sendLocation e req w)))).
            \<exists>c\<in>set (contacts w). session_id c = sess_id s \<and>
               x = SmsAttempt (phone_number c) (updatedSmsBody (user_phone s) l))"
proof -
  define sid where "sid = strOr (loc_body_sessionId req) []"
  define body where "body = updatedSmsBody (user_phone s) l"
  define w1 where "w1 = updateSessionLocation e sid l w"
  define w2 where "w2 = logEvent sid ''location_submitted''
                          [(''location'', PStr l), (''submittedAt'', PTime (now e))] w1"
  define cs where "cs = getEmergencyContacts w sid"
  define w3 where "w3 = fold (locationUpdateContact e sid body l) cs w2"
  have sid: "sess_id s = sid"
    using assms(2) by (simp add: sid_def getSession_sess_id)
  have tl: "truthy (loc_body_location req)"
    using assms(3,4) by (cases "loc_body_location req") (auto simp: trim_def)
  have c2: "contacts w2 = contacts w"
    by (simp add: w2_def w1_def logEvent_fields updateSessionLocation_fields)
  have g2: "getEmergencyContacts w2 sid = cs"
    unfolding cs_def using c2 by (rule getEmergencyContacts_cong)
  from assms(4) have ln: "l \<noteq> []" by auto
  have sl: "sendLocation e req w = (200, w3)"
    using assms(1,2,5) tl ln
    by (simp add: sendLocation_def Let_def sid_def [symmetric] assms(3) [symmetric]
        w3_def w2_def [symmetric] w1_def [symmetric] g2 body_def)
  have 1: "fst (sendLocation e req w) = 200" by (simp add: sl)
  have 2: "sessions (snd (sendLocation e req w)) =
           map (\<lambda>r. if sess_id r = sid then r\<lparr>location := Some l, updated_at := now e\<rparr> else r) (sessions w)"
    by (simp add: sl w3_def fold_locationUpdateContact_fields w2_def logEvent_fields w1_def
        updateSessionLocation_fields)
  have s3: "sessions w3 = sessions w1"
    by (simp add: w3_def fold_locationUpdateContact_fields w2_def logEvent_fields)
  have 3: "getSession (snd (sendLocation e req w)) sid = Some (s\<lparr>location := Some l, updated_at := now e\<rparr>)"
    using assms(2)
    by (simp add: sl getSession_cong [OF s3] w1_def getSession_updateSessionLocation sid_def)
  have 4: "\<forall>sid'. statusOf (snd (sendLocation e req w)) sid' = statusOf w sid'"
    by (simp add: statusOf_sendLocation)
  have 5: "contacts (snd (sendLocation e req w)) = contacts w"
    by (simp add: sl w3_def fold_locationUpdateContact_fields c2)
  have 6: "sublist l body" unfolding body_def by (rule sublist_updatedSmsBody)
  have 7: "newEffects w (snd (sendLocation e req w)) =
           LocationWrite sid l #
           EventWrite (Event sid ''location_submitted''
                         [(''location'', PStr l), (''submittedAt'', PTime (now e))]) #
           concat (map (\<lambda>c. [SmsAttempt (phone_number c) body,
                              EventWrite (locationUpdateEvent e sid body l c)]) cs)"
    by (simp add: newEffects_def sl w3_def fold_locationUpdateContact_fields w2_def logEvent_fields
        w1_def updateSessionLocation_fields)
  have el: "event_log (snd (sendLocation e req w)) =
           event_log w @
           Event sid ''location_submitted'' [(''location'', PStr l), (''submittedAt'', PTime (now e))] #
           map (locationUpdateEvent e sid body l) cs"
    by (simp add: sl w3_def fold_locationUpdateContact_fields w2_def logEvent_fields
        w1_def updateSessionLocation_fields)
  have nv: "newEvents w (snd (sendLocation e req w)) =
           Event sid ''location_submitted'' [(''location'', PStr l), (''submittedAt'', PTime (now e))] #
           map (locationUpdateEvent e sid body l) cs"
    by (simp add: newEvents_def el)
  have sub: "set (newEvents w (snd (sendLocation e req w))) \<subseteq> set (event_log (snd (sendLocation e req w)))"
    unfolding nv el by auto
  have 8: "Event sid ''location_update_sms_failed'' [(''to'', PStr (phone_number c)), (''error'', PStr err)]
             \<in> set (newEvents w (snd (sendLocation e req w)))"
    if "c \<in> set cs" "sendSMS_result e (phone_number c) body = Inl err" for c err
  proof -
    from that(2) have "locationUpdateEvent e sid body l c =
        Event sid ''location_update_sms_failed'' [(''to'', PStr (phone_number c)), (''error'', PStr err)]"
      by (simp add: locationUpdateEvent_def)
    with that(1) show ?thesis unfolding nv by force
  qed
  have 9: "Event sid ''location_update_sms_sent'' [(''to'', PStr (phone_number c)), (''location'', PStr l)]
             \<in> set (newEvents w (snd (sendLocation e req w)))"
    if "c \<in> set cs" "sendSMS_result e (phone_number c) body = Inr m" for c m
  proof -
    from that(2) have "locationUpdateEvent e sid body l c =
        Event sid ''location_update_sms_sent'' [(''to'', PStr (phone_number c)), (''location'', PStr l)]"
      by (simp add: locationUpdateEvent_def)
    with that(1) show ?thesis unfolding nv by force
  qed
  have mem: "c \<in> set cs" if "c \<in> set (contacts w)" "session_id c = sid" for c
    using that by (simp add: cs_def set_getEmergencyContacts)
  have 10: "SmsAttempt (phone_number c) body \<in> set (newEffects w (snd (sendLocation e req w)))"
    if "c \<in> set cs" for c
    using that unfolding 7 by auto
  have 11: "\<forall>c\<in>set (contacts w). session_id c = sid \<longrightarrow>
            SmsAttempt (phone_number c) body \<in> set (newEffects w (snd (sendLocation e req w))) \<and>
            (\<forall>err. sendSMS_result e (phone_number c) body = Inl err \<longrightarrow>
               Event sid ''location_update_sms_failed''
                 [(''to'', PStr (phone_number c)), (''error'', PStr err)]
                 \<in> set (event_log (snd (sendLocation e req w)))) \<and>
            (\<forall>m. sendSMS_result e (phone_number c) body = Inr m \<longrightarrow>
               Event sid ''location_update_sms_sent''
                 [(''to'', PStr (phone_number c)), (''location'', PStr l)]
                 \<in> set (event_log (snd (sendLocation e req w))))"
    using mem 8 9 10 sub by blast
  have fn: "filter isNotification (newEffects w (snd (sendLocation e req w))) =
            map (\<lambda>c. SmsAttempt (phone_number c) body) cs"
    unfolding 7 by (simp add: filter_locationUpdate_notifications)
  have 12: "length (filter isNotification (newEffects w (snd (sendLocation e req w)))) =
           length (filter (\<lambda>c. session_id c = sid) (contacts w))"
    unfolding fn by (simp add: cs_def length_getEmergencyContacts)
  have 13: "\<forall>x\<in>set (filter isNotification (newEffects w (snd (sendLocation e req w)))).
            \<exists>c\<in>set (contacts w). session_id c = sid \<and> x = SmsAttempt (phone_number c) body"
    unfolding fn by (auto simp: cs_def set_getEmergencyContacts)
  from 8 9 have 89: "\<forall>c\<in>set cs.
            (\<forall>err. sendSMS_result e (phone_number c) body = Inl err \<longrightarrow>
               Event sid ''location_update_sms_failed''
                 [(''to'', PStr (phone_number c)), (''error'', PStr err)]
                 \<in> set (newEvents w (snd (sendLocation e req w)))) \<and>
            (\<forall>m. sendSMS_result e (phone_number c) body = Inr m \<longrightarrow>
               Event sid ''location_update_sms_sent''
                 [(''to'', PStr (phone_number c)), (''location'', PStr l)]
                 \<in> set (newEvents w (snd (sendLocation e req w))))"
    by blast
  from 1 2 3 4 5 6 7 el 89 11 12 13 show ?thesis
    unfolding sid body_def cs_def by simp
qed

text \<open>
  Claim C9 at an escalated session with two contacts, where the send to the first contact
  fails and the send to the second succeeds: the location is stored, the status stays
  \<open>escalated\<close>, both contacts are sent the alert with the new location, and the event log
  holds \<open>location_submitted\<close>, the failure under the first number and the success under
  the second.
\<close>

theorem sendLocation_frame_witness:
  "truthy (loc_body_sessionId ex_location) \<and>
   getSession (ex_world Escalated) ''s1'' = Some (ex_session Escalated) \<and>
   trim (strOr (loc_body_location ex_location) []) = ''5th and Main'' \<and>
   map phone_number (contacts (ex_world Escalated)) = [''+12025550102'', ''+12025550103''] \<and>
   map session_id (contacts (ex_world Escalated)) = [''s1'', ''s1''] \<and>
   fst (sendLocation ex_env ex_location (ex_world Escalated)) = 200 \<and>
   statusOf (snd (sendLocation ex_env ex_location (ex_world Escalated))) ''s1'' = Some Escalated \<and>
   getSession (snd (sendLocation ex_env ex_location (ex_world Escalated))) ''s1'' =
     Some ((ex_session Escalated)\<lparr>location := Some ''5th and Main'', updated_at := 1000\<rparr>) \<and>
   sublist ''5th and Main'' (updatedSmsBody ''+12025550101'' ''5th and Main'') \<and>
   newEffects (ex_world Escalated) (snd (sendLocation ex_env ex_location (ex_world Escalated))) =
     [LocationWrite ''s1'' ''5th and Main'',
      EventWrite (Event ''s1'' ''location_submitted''
                    [(''location'', PStr ''5th and Main''), (''submittedAt'', PTime 1000)]),
      SmsAttempt ''+12025550102'' (updatedSmsBody ''+12025550101'' ''5th and Main''),
      EventWrite (Event ''s1'' ''location_update_sms_failed''
                    [(''to'', PStr ''+12025550102''), (''error'', PStr ''unreachable'')]),
      SmsAttempt ''+12025550103'' (updatedSmsBody ''+12025550101'' ''5th and Main''),
      EventWrite (Event ''s1'' ''location_update_sms_sent''
                    [(''to'', PStr ''+12025550103''), (''location'', PStr ''5th and Main'')])] \<and>
   event_log (snd (sendLocation ex_env ex_location (ex_world Escalated))) =
     [Event ''s1'' ''location_submitted''
        [(''location'', PStr ''5th and Main''), (''submittedAt'', PTime 1000)],
      Event ''s1'' ''location_update_sms_failed''
        [(''to'', PStr ''+12025550102''), (''error'', PStr ''unreachable'')],
      Event ''s1'' ''location_update_sms_sent''
        [(''to'', PStr ''+12025550103''), (''location'', PStr ''5th and Main'')]]"
proof -
  let ?A = "\<lparr>session_id = ''s1'', phone_number = ''+12025550102'', is_primary = True, display_order = 0\<rparr>"
  let ?B = "\<lparr>session_id = ''s1'', phone_number = ''+12025550103'', is_primary = False, display_order = 1\<rparr>"
  let ?body = "updatedSmsBody ''+12025550101'' ''5th and Main''"
  have h1: "truthy (loc_body_sessionId ex_location)" by code_simp
  have sid: "strOr (loc_body_sessionId ex_location) [] = ''s1''" by code_simp
  have h2: "getSession (ex_world Escalated) (strOr (loc_body_sessionId ex_location) []) = Some (ex_session Escalated)"
    unfolding sid by code_simp
  have h3: "''5th and Main'' = trim (strOr (loc_body_location ex_location) [])" by code_simp
  have h4: "1 \<le> length ''5th and Main''" by simp
  have h5: "length ''5th and Main'' \<le> 500" by simp
  have st: "statusOf (ex_world Escalated) ''s1'' = Some Escalated" by code_simp
  have id: "sess_id (ex_session Escalated) = ''s1''" by (simp add: ex_session_def)
  have up: "user_phone (ex_session Escalated) = ''+12025550101''" by (simp add: ex_session_def)
  have nw: "now ex_env = 1000" by (simp add: ex_env_def)
  have cs: "getEmergencyContacts (ex_world Escalated) ''s1'' = [?A, ?B]" by code_simp
  have rows: "map phone_number (contacts (ex_world Escalated)) = [''+12025550102'', ''+12025550103'']"
    "map session_id (contacts (ex_world Escalated)) = [''s1'', ''s1'']"
    by (simp_all add: ex_world_def ex_contacts_def)
  have e0: "event_log (ex_world Escalated) = []" by (simp add: ex_world_def)
  note T = sendLocation_frame [OF h1 h2 h3 h4 h5, of ex_env, unfolded id up cs nw e0]
  from T have 1: "fst (sendLocation ex_env ex_location (ex_world Escalated)) = 200" by blast
  from T have 2: "statusOf (snd (sendLocation ex_env ex_location (ex_world Escalated))) ''s1'' =
      statusOf (ex_world Escalated) ''s1''" by blast
  from T have 3: "getSession (snd (sendLocation ex_env ex_location (ex_world Escalated))) ''s1'' =
     Some ((ex_session Escalated)\<lparr>location := Some ''5th and Main'', updated_at := 1000\<rparr>)"
    by blast
  from T have 4: "sublist ''5th and Main'' ?body" by blast
  from T have "newEffects (ex_world Escalated) (snd (sendLocation ex_env ex_location (ex_world Escalated))) =
           LocationWrite ''s1'' ''5th and Main'' #
           EventWrite (Event ''s1'' ''location_submitted''
                         [(''location'', PStr ''5th and Main''), (''submittedAt'', PTime 1000)]) #
           concat (map (\<lambda>c. [SmsAttempt (phone_number c) ?body,
                              EventWrite (locationUpdateEvent ex_env ''s1'' ?body ''5th and Main'' c)])
                    [?A, ?B])" by blast
  then have 5: "newEffects (ex_world Escalated) (snd (sendLocation ex_env ex_location (ex_world Escalated))) =
     [LocationWrite ''s1'' ''5th and Main'',
      EventWrite (Event ''s1'' ''location_submitted''
                    [(''location'', PStr ''5th and Main''), (''submittedAt'', PTime 1000)]),
      SmsAttempt ''+12025550102'' ?body,
      EventWrite (Event ''s1'' ''location_update_sms_failed''
                    [(''to'', PStr ''+12025550102''), (''error'', PStr ''unreachable'')]),
      SmsAttempt ''+12025550103'' ?body,
      EventWrite (Event ''s1'' ''location_update_sms_sent''
                    [(''to'', PStr ''+12025550103''), (''location'', PStr ''5th and Main'')])]"
    by (simp add: locationUpdateEvent_def ex_env_def)
  from T have "event_log (snd (sendLocation ex_env ex_location (ex_world Escalated))) =
           [] @
           Event ''s1'' ''location_submitted''
             [(''location'', PStr ''5th and Main''), (''submittedAt'', PTime 1000)] #
           map (locationUpdateEvent ex_env ''s1'' ?body ''5th and Main'') [?A, ?B]" by blast
  then have 6: "event_log (snd (sendLocation ex_env ex_location (ex_world Escalated))) =
     [Event ''s1'' ''location_submitted''
        [(''location'', PStr ''5th and Main''), (''submittedAt'', PTime 1000)],
      Event ''s1'' ''location_update_sms_failed''
        [(''to'', PStr ''+12025550102''), (''error'', PStr ''unreachable'')],
      Event ''s1'' ''location_update_sms_sent''
        [(''to'', PStr ''+12025550103''), (''location'', PStr ''5th and Main'')]]"
    by (simp add: locationUpdateEvent_def ex_env_def)
  from h1 h2 h3 rows 1 2 3 4 5 6 show ?thesis
    unfolding sid by (simp add: st)
qed

section \<open>Claims about the scheduler\<close>

lemma trace_processDue: "trace (processDue e s w) = trace w @ processDueEffects e s"
  by (simp add: processDue_fields processDueEffects_def)

lemma trace_fold_processDue:
  "trace (fold (processDue e) xs w) = trace w @ concat (map (processDueEffects e) xs)"
  by (induction xs arbitrary: w) (simp_all add: trace_processDue)

lemma ids_processDue: "map sess_id (sessions (processDue e s w)) = map sess_id (sessions w)"
  by (simp add: processDue_fields o_def)

lemma ids_fold_processDue:
  "map sess_id (sessions (fold (processDue e) xs w)) = map sess_id (sessions w)"
  by (induction xs arbitrary: w) (simp_all add: ids_processDue)

lemma getSession_processDue:
  "getSession (processDue e s w) sid =
     (if sid = sess_id s
      then map_option (\<lambda>r. r\<lparr>status := (case checkInCall_result e (user_phone s) (sess_id s) of
                                           Inr _ \<Rightarrow> Active | Inl _ \<Rightarrow> Pending),
                              updated_at := now e\<rparr>) (getSession w sid)
      else getSession w sid)"
proof -
  have "getSession (processDue e s w) sid =
      map_option (\<lambda>r. if sess_id r = sess_id s
              then r\<lparr>status := (case checkInCall_result e (user_phone s) (sess_id s) of
                                   Inr _ \<Rightarrow> Active | Inl _ \<Rightarrow> Pending),
                      updated_at := now e\<rparr>
              else r) (getSession w sid)"
    by (rule getSession_map) (simp_all add: processDue_fields)
  then show ?thesis
    by (cases "getSession w sid") (auto dest: getSession_sess_id)
qed

lemma getSession_fold_processDue_other:
  "sid \<notin> sess_id ` set xs \<Longrightarrow> getSession (fold (processDue e) xs w) sid = getSession w sid"
  by (induction xs arbitrary: w) (simp_all add: getSession_processDue)

lemma getSession_fold_processDue_member:
  assumes "distinct (map sess_id xs)" and "s \<in> set xs"
  shows "getSession (fold (processDue e) xs w) (sess_id s) =
     map_option (\<lambda>r. r\<lparr>status := (case checkInCall_result e (user_phone s) (sess_id s) of
                                           Inr _ \<Rightarrow> Active | Inl _ \<Rightarrow> Pending),
                              updated_at := now e\<rparr>) (getSession w (sess_id s))"
  using assms
proof (induction xs arbitrary: w)
  case Nil
  then show ?case by simp
next
  case (Cons x xs)
  show ?case
  proof (cases "x = s")
    case True
    with Cons.prems have "sess_id s \<notin> sess_id ` set xs" by simp
    then show ?thesis
      using True by (simp add: getSession_fold_processDue_other getSession_processDue)
  next
    case False
    with Cons.prems have m: "s \<in> set xs" and d: "distinct (map sess_id xs)"
      and nx: "sess_id x \<notin> sess_id ` set xs" by auto
    from m have "sess_id s \<in> sess_id ` set xs" by (rule imageI)
    with nx have ne: "sess_id s \<noteq> sess_id x" by auto
    show ?thesis
      using Cons.IH [OF d m] ne by (simp add: getSession_processDue)
  qed
qed

lemma distinct_map_insort_key:
  "distinct (map g (insort_key f x xs)) = (g x \<notin> g ` set xs \<and> distinct (map g xs))"
  by (induction xs) (auto simp: set_insort_key)

lemma distinct_map_sort_key: "distinct (map g (sort_key f xs)) = distinct (map g xs)"
  by (induction xs) (simp_all add: distinct_map_insort_key)

lemma distinct_ids_dueSessions:
  "distinct (map sess_id (sessions w)) \<Longrightarrow> distinct (map sess_id (dueSessions e w))"
  by (simp add: dueSessions_def distinct_map_filter distinct_map_sort_key)

lemma getSession_distinct:
  assumes "distinct (map sess_id (sessions w))" and "s \<in> set (sessions w)"
  shows "getSession w (sess_id s) = Some s"
proof (cases "getSession w (sess_id s)")
  case None
  with assms(2) show ?thesis by (auto simp: getSession_def find_None_iff)
next
  case (Some r)
  then have "r \<in> set (sessions w)" "sess_id r = sess_id s"
    by (simp_all add: getSession_in_set getSession_sess_id)
  with assms have "r = s" by (auto intro: distinct_ids_unique)
  with Some show ?thesis by simp
qed

lemma checkDueSessions_idle:
  assumes "\<not> isRunning w"
  shows "sessions (checkDueSessions e w) = sessions (fold (processDue e) (dueSessions e w) (w\<lparr>isRunning := True\<rparr>))"
    and "trace (checkDueSessions e w) = trace w @ concat (map (processDueEffects e) (dueSessions e w))"
    and "\<not> isRunning (checkDueSessions e w)"
    and "contacts (checkDueSessions e w) = contacts w"
  using assms
  by (simp_all add: checkDueSessions_def Let_def dueSessions_isRunning trace_fold_processDue
      fold_processDue_fields)

lemma no_attempts_other:
  "sid \<notin> sess_id ` set xs \<Longrightarrow>
   filter (\<lambda>x. x = CheckInCallAttempt p sid) (concat (map (processDueEffects e) xs)) = []"
  by (induction xs) (auto simp: processDueEffects_def split: sum.splits)

lemma one_attempt_self:
  "length (filter (\<lambda>x. x = CheckInCallAttempt (user_phone s) (sess_id s)) (processDueEffects e s)) = 1"
  by (simp add: processDueEffects_def split: sum.splits)

lemma one_attempt_member:
  assumes "distinct (map sess_id xs)" and "s \<in> set xs"
  shows "length (filter (\<lambda>x. x = CheckInCallAttempt (user_phone s) (sess_id s))
                   (concat (map (processDueEffects e) xs))) = 1"
  using assms
proof (induction xs)
  case Nil
  then show ?case by simp
next
  case (Cons x xs)
  show ?case
  proof (cases "x = s")
    case True
    with Cons.prems have "sess_id s \<notin> sess_id ` set xs" by simp
    then show ?thesis
      using True by (simp add: no_attempts_other one_attempt_self)
  next
    case False
    with Cons.prems have m: "s \<in> set xs" and d: "distinct (map sess_id xs)"
      and nx: "sess_id x \<notin> sess_id ` set xs" by auto
    from m have "sess_id s \<in> sess_id ` set xs" by (rule imageI)
    with nx have ne: "sess_id s \<noteq> sess_id x" by auto
    have "filter (\<lambda>y. y = CheckInCallAttempt (user_phone s) (sess_id s)) (processDueEffects e x) = []"
      using ne by (auto simp: processDueEffects_def split: sum.splits)
    then show ?thesis
      using Cons.IH [OF d m] by simp
  qed
qed

lemma tick_session:
  assumes "\<not> isRunning w" and "distinct (map sess_id (sessions w))" and "s \<in> set (dueSessions e w)"
  shows "getSession (checkDueSessions e w) (sess_id s) =
     Some (s\<lparr>status := (case checkInCall_result e (user_phone s) (sess_id s) of
                          Inr _ \<Rightarrow> Active | Inl _ \<Rightarrow> Pending),
             updated_at := now e\<rparr>)"
proof -
  from assms(3) have m: "s \<in> set (sessions w)" by (simp add: set_dueSessions)
  have g: "getSession (w\<lparr>isRunning := True\<rparr>) (sess_id s) = Some s"
    using getSession_distinct [OF assms(2) m] by (simp add: getSession_def)
  have "getSession (checkDueSessions e w) (sess_id s) =
      getSession (fold (processDue e) (dueSessions e w) (w\<lparr>isRunning := True\<rparr>)) (sess_id s)"
    by (rule getSession_cong) (rule checkDueSessions_idle(1) [OF assms(1)])
  also have "\<dots> = map_option (\<lambda>r. r\<lparr>status := (case checkInCall_result e (user_phone s) (sess_id s) of
                                           Inr _ \<Rightarrow> Active | Inl _ \<Rightarrow> Pending),
                              updated_at := now e\<rparr>) (getSession (w\<lparr>isRunning := True\<rparr>) (sess_id s))"
    by (rule getSession_fold_processDue_member [OF distinct_ids_dueSessions [OF assms(2)] assms(3)])
  finally show ?thesis by (simp add: g)
qed

lemma ids_checkDueSessions:
  "map sess_id (sessions (checkDueSessions e w)) = map sess_id (sessions w)"
  by (simp add: checkDueSessions_def Let_def ids_fold_processDue)

lemma attempts_tick:
  assumes "\<not> isRunning w" and "distinct (map sess_id (sessions w))" and "s \<in> set (dueSessions e w)"
  shows "attempts (user_phone s) (sess_id s) (checkDueSessions e w) =
         attempts (user_phone s) (sess_id s) w + 1"
  using one_attempt_member [OF distinct_ids_dueSessions [OF assms(2)] assms(3), of e]
  by (simp add: attempts_def checkDueSessions_idle(2) [OF assms(1)])

lemma retry_unbounded:
  assumes "\<not> isRunning w" and "distinct (map sess_id (sessions w))"
    and "s \<in> set (sessions w)" and "status s = Pending"
    and "\<forall>e\<in>set es. scheduled_at s \<le> now e \<and>
           (\<exists>err. checkInCall_result e (user_phone s) (sess_id s) = Inl err)"
  shows "attempts (user_phone s) (sess_id s) (fold checkDueSessions es w) =
         attempts (user_phone s) (sess_id s) w + length es"
  using assms
proof (induction es arbitrary: w s)
  case Nil
  then show ?case by simp
next
  case (Cons e es)
  define w' where "w' = checkDueSessions e w"
  define s' where "s' = s\<lparr>updated_at := now e\<rparr>"
  from Cons.prems(5) obtain err where due: "scheduled_at s \<le> now e"
    and fail: "checkInCall_result e (user_phone s) (sess_id s) = Inl err" by auto
  from Cons.prems(3,4) due have m: "s \<in> set (dueSessions e w)" by (simp add: set_dueSessions)
  have "getSession w' (sess_id s) = Some (s\<lparr>status := Pending, updated_at := now e\<rparr>)"
    unfolding w'_def using tick_session [OF Cons.prems(1,2) m] fail by simp
  also have "s\<lparr>status := Pending, updated_at := now e\<rparr> = s'"
    using Cons.prems(4) by (simp add: s'_def)
  finally have g': "getSession w' (sess_id s) = Some s'" .
  have 1: "\<not> isRunning w'" unfolding w'_def by (rule checkDueSessions_idle(3) [OF Cons.prems(1)])
  have 2: "distinct (map sess_id (sessions w'))"
    unfolding w'_def using Cons.prems(2) by (simp add: ids_checkDueSessions)
  have 3: "s' \<in> set (sessions w')" using g' by (rule getSession_in_set)
  have 4: "status s' = Pending" using Cons.prems(4) by (simp add: s'_def)
  have same: "user_phone s' = user_phone s" "sess_id s' = sess_id s" "scheduled_at s' = scheduled_at s"
    by (simp_all add: s'_def)
  have 5: "\<forall>e\<in>set es. scheduled_at s' \<le> now e \<and>
           (\<exists>err. checkInCall_result e (user_phone s') (sess_id s') = Inl err)"
    using Cons.prems(5) by (simp add: same)
  have "attempts (user_phone s') (sess_id s') (fold checkDueSessions es w') =
         attempts (user_phone s') (sess_id s') w' + length es"
    by (rule Cons.IH [OF 1 2 3 4 5])
  moreover have "attempts (user_phone s) (sess_id s) w' = attempts (user_phone s) (sess_id s) w + 1"
    unfolding w'_def by (rule attempts_tick [OF Cons.prems(1,2) m])
  ultimately show ?case by (simp add: same w'_def)
qed

lemma statusOf_defined: "sid \<in> sess_id ` set (sessions w) \<Longrightarrow> statusOf w sid \<noteq> None"
  by (auto simp: statusOf_def getSession_def find_None_iff)

lemma statusOf_processDue_request:
  "statusOf (snd (processDue_request e s v)) (sess_id s) = map_option (\<lambda>_. Active) (statusOf v (sess_id s))"
proof -
  have "sessions (snd (processDue_request e s v)) =
      sessions (updateSessionStatus e (sess_id s) Active v)"
    by (simp add: processDue_request_fields updateSessionStatus_fields)
  then have "statusOf (snd (processDue_request e s v)) (sess_id s) =
      statusOf (updateSessionStatus e (sess_id s) Active v) (sess_id s)"
    by (rule statusOf_cong)
  then show ?thesis by (simp add: statusOf_updateSessionStatus)
qed

lemma tickSuspended_active:
  assumes "k < length (dueSessions e w)"
  shows "statusOf (tickSuspended e w k) (sess_id (dueSessions e w ! k)) = Some Active"
proof -
  define s where "s = dueSessions e w ! k"
  define v where "v = fold (processDue e) (take k (dueSessions e w)) (w\<lparr>isRunning := True\<rparr>)"
  from assms have "s \<in> set (dueSessions e w)" by (simp add: s_def)
  then have "s \<in> set (sessions w)" by (simp add: set_dueSessions)
  then have "sess_id s \<in> set (map sess_id (sessions w))" by simp
  also have "map sess_id (sessions w) = map sess_id (sessions v)"
    by (simp add: v_def ids_fold_processDue)
  finally have "statusOf v (sess_id s) \<noteq> None" by (simp add: statusOf_defined)
  then have "map_option (\<lambda>_. Active) (statusOf v (sess_id s)) = Some Active" by auto
  then show ?thesis
    by (simp add: tickSuspended_def Let_def dueSessions_isRunning statusOf_processDue_request
        s_def [symmetric] v_def [symmetric])
qed

lemma isRunning_tickSuspended: "isRunning (tickSuspended e w k)"
  by (simp add: tickSuspended_def Let_def processDue_request_fields fold_processDue_fields)

lemma event_log_processDue: "event_log (processDue e s w) = event_log w @ processDueEvents e s"
  by (simp add: processDue_fields processDueEvents_def)

lemma event_log_fold_processDue:
  "event_log (fold (processDue e) xs w) = event_log w @ concat (map (processDueEvents e) xs)"
  by (induction xs arbitrary: w) (simp_all add: event_log_processDue)

lemma event_log_checkDueSessions:
  "\<not> isRunning w \<Longrightarrow>
   event_log (checkDueSessions e w) =
     event_log w @ concat (map (processDueEvents e) (dueSessions e w))"
  by (simp add: checkDueSessions_def Let_def dueSessions_isRunning event_log_fold_processDue)

lemma event_log_tickSuspended:
  "event_log (tickSuspended e w k) =
     event_log w @ concat (map (processDueEvents e) (take k (dueSessions e w))) @
     [Event (sess_id (dueSessions e w ! k)) ''call_initiated''
        [(''userPhone'', PStr (user_phone (dueSessions e w ! k)))]]"
  by (simp add: tickSuspended_def Let_def dueSessions_isRunning processDue_request_fields
      event_log_fold_processDue)

lemma trace_tickSuspended:
  "trace (tickSuspended e w k) =
     trace w @ concat (map (processDueEffects e) (take k (dueSessions e w))) @
     [EventWrite (Event (sess_id (dueSessions e w ! k)) ''call_initiated''
        [(''userPhone'', PStr (user_phone (dueSessions e w ! k)))]),
      StatusWrite (sess_id (dueSessions e w ! k)) Active,
      CheckInCallAttempt (user_phone (dueSessions e w ! k)) (sess_id (dueSessions e w ! k))]"
  by (simp add: tickSuspended_def Let_def dueSessions_isRunning processDue_request_fields
      trace_fold_processDue)

lemma processDueEvents_member:
  "s \<in> set xs \<Longrightarrow> set (processDueEvents e s) \<subseteq> set (concat (map (processDueEvents e) xs))"
  by auto

text \<open>
  Claim C6. For a tick that starts while no tick is running, on a store with unique
  session ids, and every session \<open>s\<close> the tick finds due (pending, scheduled time
  reached): the tick does, for each due session in turn, exactly \<open>processDueEffects\<close>,
  which begins with the \<open>call_initiated\<close> event, then the status write \<open>active\<close>, then
  the call attempt, and it appends to the event log, for each due session in turn,
  exactly \<open>processDueEvents\<close>, so that the log holds the \<open>call_initiated\<close> row of \<open>s\<close>;
  while the tick waits for the provider's answer about a due session, that session's
  status is \<open>active\<close>, its \<open>call_initiated\<close> row is the last row of the event log and the
  call attempt is the last thing done; if the attempt throws, the \<open>call_failed\<close> event
  carrying the error is written to the event log and then the status \<open>pending\<close>, the
  session row is afterwards as it was before the tick except for \<open>updated_at\<close> (no
  counter, no delay is stored), and it is due again for every later tick; if the attempt
  succeeds the session is \<open>active\<close> after the tick; and over any sequence of ticks run
  from this state, in each of which the clock has reached the scheduled time and the
  attempt fails, every tick makes one more attempt, whatever the length of the sequence.
\<close>

theorem checkDueSessions_order_and_retry:
  assumes "\<not> isRunning w" and "distinct (map sess_id (sessions w))"
    and "s \<in> set (dueSessions e w)"
  shows "status s = Pending \<and> scheduled_at s \<le> now e \<and>
     newEffects w (checkDueSessions e w) = concat (map (processDueEffects e) (dueSessions e w)) \<and>
     (\<exists>rest. processDueEffects e s =
        EventWrite (Event (sess_id s) ''call_initiated'' [(''userPhone'', PStr (user_phone s))]) #
        StatusWrite (sess_id s) Active #
        CheckInCallAttempt (user_phone s) (sess_id s) # rest) \<and>
     event_log (checkDueSessions e w) =
       event_log w @ concat (map (processDueEvents e) (dueSessions e w)) \<and>
     Event (sess_id s) ''call_initiated'' [(''userPhone'', PStr (user_phone s))]
       \<in> set (newEvents w (checkDueSessions e w)) \<and>
     (\<forall>k. k < length (dueSessions e w) \<longrightarrow>
        statusOf (tickSuspended e w k) (sess_id (dueSessions e w ! k)) = Some Active \<and>
        last (event_log (tickSuspended e w k)) =
          Event (sess_id (dueSessions e w ! k)) ''call_initiated''
            [(''userPhone'', PStr (user_phone (dueSessions e w ! k)))] \<and>
        length (event_log (tickSuspended e w k)) = length (event_log w) + 2 * k + 1 \<and>
        last (trace (tickSuspended e w k)) =
          CheckInCallAttempt (user_phone (dueSessions e w ! k)) (sess_id (dueSessions e w ! k))) \<and>
     (\<forall>err. checkInCall_result e (user_phone s) (sess_id s) = Inl err \<longrightarrow>
        processDueEffects e s =
          [EventWrite (Event (sess_id s) ''call_initiated'' [(''userPhone'', PStr (user_phone s))]),
           StatusWrite (sess_id s) Active,
           CheckInCallAttempt (user_phone s) (sess_id s),
           EventWrite (Event (sess_id s) ''call_failed'' [(''error'', PStr err)]),
           StatusWrite (sess_id s) Pending] \<and>
        processDueEvents e s =
          [Event (sess_id s) ''call_initiated'' [(''userPhone'', PStr (user_phone s))],
           Event (sess_id s) ''call_failed'' [(''error'', PStr err)]] \<and>
        Event (sess_id s) ''call_failed'' [(''error'', PStr err)]
          \<in> set (newEvents w (checkDueSessions e w)) \<and>
        getSession (checkDueSessions e w) (sess_id s) = Some (s\<lparr>updated_at := now e\<rparr>) \<and>
        (\<forall>e'. now e \<le> now e' \<longrightarrow>
           s\<lparr>updated_at := now e\<rparr> \<in> set (dueSessions e' (checkDueSessions e w)))) \<and>
     (\<forall>m. checkInCall_result e (user_phone s) (sess_id s) = Inr m \<longrightarrow>
        statusOf (checkDueSessions e w) (sess_id s) = Some Active) \<and>
     (\<forall>es. (\<forall>e'\<in>set es. scheduled_at s \<le> now e' \<and>
                (\<exists>err. checkInCall_result e' (user_phone s) (sess_id s) = Inl err)) \<longrightarrow>
        attempts (user_phone s) (sess_id s) (fold checkDueSessions es w) =
        attempts (user_phone s) (sess_id s) w + length es)"
proof -
  from assms(3) have m: "s \<in> set (sessions w)" and p: "status s = Pending"
    and d: "scheduled_at s \<le> now e"
    by (simp_all add: set_dueSessions)
  have 1: "newEffects w (checkDueSessions e w) = concat (map (processDueEffects e) (dueSessions e w))"
    by (simp add: newEffects_def checkDueSessions_idle(2) [OF assms(1)])
  have 2: "\<exists>rest. processDueEffects e s =
        EventWrite (Event (sess_id s) ''call_initiated'' [(''userPhone'', PStr (user_phone s))]) #
        StatusWrite (sess_id s) Active #
        CheckInCallAttempt (user_phone s) (sess_id s) # rest"
    by (simp add: processDueEffects_def)
  have el: "event_log (checkDueSessions e w) =
       event_log w @ concat (map (processDueEvents e) (dueSessions e w))"
    using assms(1) by (rule event_log_checkDueSessions)
  then have ne: "newEvents w (checkDueSessions e w) =
       concat (map (processDueEvents e) (dueSessions e w))"
    by (simp add: newEvents_def)
  have sub: "set (processDueEvents e s) \<subseteq> set (newEvents w (checkDueSessions e w))"
    unfolding ne using assms(3) by (rule processDueEvents_member)
  have "Event (sess_id s) ''call_initiated'' [(''userPhone'', PStr (user_phone s))]
          \<in> set (processDueEvents e s)"
    by (simp add: processDueEvents_def)
  with sub have ci: "Event (sess_id s) ''call_initiated'' [(''userPhone'', PStr (user_phone s))]
       \<in> set (newEvents w (checkDueSessions e w))" by blast
  have len: "length (concat (map (processDueEvents e) xs)) = 2 * length xs" for xs
    by (induction xs) (simp_all add: processDueEvents_def)
  have 3: "\<forall>k. k < length (dueSessions e w) \<longrightarrow>
        statusOf (tickSuspended e w k) (sess_id (dueSessions e w ! k)) = Some Active \<and>
        last (event_log (tickSuspended e w k)) =
          Event (sess_id (dueSessions e w ! k)) ''call_initiated''
            [(''userPhone'', PStr (user_phone (dueSessions e w ! k)))] \<and>
        length (event_log (tickSuspended e w k)) = length (event_log w) + 2 * k + 1 \<and>
        last (trace (tickSuspended e w k)) =
          CheckInCallAttempt (user_phone (dueSessions e w ! k)) (sess_id (dueSessions e w ! k))"
    by (simp add: tickSuspended_active event_log_tickSuspended trace_tickSuspended len)
  have 4: "processDueEffects e s =
          [EventWrite (Event (sess_id s) ''call_initiated'' [(''userPhone'', PStr (user_phone s))]),
           StatusWrite (sess_id s) Active,
           CheckInCallAttempt (user_phone s) (sess_id s),
           EventWrite (Event (sess_id s) ''call_failed'' [(''error'', PStr err)]),
           StatusWrite (sess_id s) Pending] \<and>
        processDueEvents e s =
          [Event (sess_id s) ''call_initiated'' [(''userPhone'', PStr (user_phone s))],
           Event (sess_id s) ''call_failed'' [(''error'', PStr err)]] \<and>
        Event (sess_id s) ''call_failed'' [(''error'', PStr err)]
          \<in> set (newEvents w (checkDueSessions e w)) \<and>
        getSession (checkDueSessions e w) (sess_id s) = Some (s\<lparr>updated_at := now e\<rparr>) \<and>
        (\<forall>e'. now e \<le> now e' \<longrightarrow>
           s\<lparr>updated_at := now e\<rparr> \<in> set (dueSessions e' (checkDueSessions e w)))"
    if fail: "checkInCall_result e (user_phone s) (sess_id s) = Inl err" for err
  proof -
    have "s\<lparr>status := Pending, updated_at := now e\<rparr> = s\<lparr>updated_at := now e\<rparr>"
      using p by simp
    with tick_session [OF assms, of] fail
    have g: "getSession (checkDueSessions e w) (sess_id s) = Some (s\<lparr>updated_at := now e\<rparr>)"
      by simp
    then have "s\<lparr>updated_at := now e\<rparr> \<in> set (sessions (checkDueSessions e w))"
      by (rule getSession_in_set)
    with p d have due: "\<forall>e'. now e \<le> now e' \<longrightarrow>
           s\<lparr>updated_at := now e\<rparr> \<in> set (dueSessions e' (checkDueSessions e w))"
      by (simp add: set_dueSessions)
    have pe: "processDueEvents e s =
          [Event (sess_id s) ''call_initiated'' [(''userPhone'', PStr (user_phone s))],
           Event (sess_id s) ''call_failed'' [(''error'', PStr err)]]"
      using fail by (simp add: processDueEvents_def)
    then have "Event (sess_id s) ''call_failed'' [(''error'', PStr err)] \<in> set (processDueEvents e s)"
      by simp
    with sub have cf: "Event (sess_id s) ''call_failed'' [(''error'', PStr err)]
          \<in> set (newEvents w (checkDueSessions e w))" by blast
    have pf: "processDueEffects e s =
          [EventWrite (Event (sess_id s) ''call_initiated'' [(''userPhone'', PStr (user_phone s))]),
           StatusWrite (sess_id s) Active,
           CheckInCallAttempt (user_phone s) (sess_id s),
           EventWrite (Event (sess_id s) ''call_failed'' [(''error'', PStr err)]),
           StatusWrite (sess_id s) Pending]"
      using fail by (simp add: processDueEffects_def)
    from pf pe cf g due show ?thesis by blast
  qed
  have 5: "statusOf (checkDueSessions e w) (sess_id s) = Some Active"
    if "checkInCall_result e (user_phone s) (sess_id s) = Inr m" for m
    using tick_session [OF assms] that by (simp add: statusOf_def)
  have 6: "attempts (user_phone s) (sess_id s) (fold checkDueSessions es w) =
        attempts (user_phone s) (sess_id s) w + length es"
    if "\<forall>e'\<in>set es. scheduled_at s \<le> now e' \<and>
                (\<exists>err. checkInCall_result e' (user_phone s) (sess_id s) = Inl err)" for es
    using assms(1,2) m p that by (rule retry_unbounded)
  from p d 1 2 el ci 3 4 5 6 show ?thesis by blast
qed

text \<open>
  Claim C6 at a due session whose call the provider refuses: while the tick waits, the
  session is active and the event log holds its \<open>call_initiated\<close> row; after the tick the
  event log holds that row and the \<open>call_failed\<close> row with the provider's error, the
  session is pending again, and three ticks make three attempts.
\<close>

theorem checkDueSessions_order_and_retry_witness:
  "\<not> isRunning (ex_world Pending) \<and>
   distinct (map sess_id (sessions (ex_world Pending))) \<and>
   ex_session Pending \<in> set (dueSessions ex_env (ex_world Pending)) \<and>
   checkInCall_result ex_env ''+12025550101'' ''s1'' = Inl ''busy'' \<and>
   statusOf (tickSuspended ex_env (ex_world Pending) 0) ''s1'' = Some Active \<and>
   last (event_log (tickSuspended ex_env (ex_world Pending) 0)) =
     Event ''s1'' ''call_initiated'' [(''userPhone'', PStr ''+12025550101'')] \<and>
   length (event_log (tickSuspended ex_env (ex_world Pending) 0)) = 1 \<and>
   event_log (checkDueSessions ex_env (ex_world Pending)) =
     [Event ''s1'' ''call_initiated'' [(''userPhone'', PStr ''+12025550101'')],
      Event ''s1'' ''call_failed'' [(''error'', PStr ''busy'')]] \<and>
   newEffects (ex_world Pending) (checkDueSessions ex_env (ex_world Pending)) =
     [EventWrite (Event ''s1'' ''call_initiated'' [(''userPhone'', PStr ''+12025550101'')]),
      StatusWrite ''s1'' Active,
      CheckInCallAttempt ''+12025550101'' ''s1'',
      EventWrite (Event ''s1'' ''call_failed'' [(''error'', PStr ''busy'')]),
      StatusWrite ''s1'' Pending] \<and>
   getSession (checkDueSessions ex_env (ex_world Pending)) ''s1'' =
     Some ((ex_session Pending)\<lparr>updated_at := 1000\<rparr>) \<and>
   attempts ''+12025550101'' ''s1'' (fold checkDueSessions [ex_env, ex_env, ex_env] (ex_world Pending)) = 3"
proof -
  have h1: "\<not> isRunning (ex_world Pending)" by code_simp
  have h2: "distinct (map sess_id (sessions (ex_world Pending)))" by code_simp
  have h3: "ex_session Pending \<in> set (dueSessions ex_env (ex_world Pending))" by code_simp
  have due: "dueSessions ex_env (ex_world Pending) = [ex_session Pending]" by code_simp
  have up: "user_phone (ex_session Pending) = ''+12025550101''" "sess_id (ex_session Pending) = ''s1''"
    "scheduled_at (ex_session Pending) = 900"
    by (simp_all add: ex_session_def)
  have f: "checkInCall_result ex_env ''+12025550101'' ''s1'' = Inl ''busy''" by (simp add: ex_env_def)
  have nw: "now ex_env = 1000" by (simp add: ex_env_def)
  have a0: "attempts ''+12025550101'' ''s1'' (ex_world Pending) = 0"
    by (simp add: attempts_def ex_world_def)
  have e0: "event_log (ex_world Pending) = []" by (simp add: ex_world_def)
  have es: "\<forall>e'\<in>set [ex_env, ex_env, ex_env]. 900 \<le> now e' \<and>
               (\<exists>err. checkInCall_result e' ''+12025550101'' ''s1'' = Inl err)"
    by (simp add: f nw)
  note T = checkDueSessions_order_and_retry [OF h1 h2 h3, unfolded up]
  from T f have 1: "getSession (checkDueSessions ex_env (ex_world Pending)) ''s1'' =
     Some ((ex_session Pending)\<lparr>updated_at := now ex_env\<rparr>)" by blast
  from T es have 2: "attempts ''+12025550101'' ''s1'' (fold checkDueSessions [ex_env, ex_env, ex_env] (ex_world Pending)) =
      attempts ''+12025550101'' ''s1'' (ex_world Pending) + length [ex_env, ex_env, ex_env]" by blast
  from T f have pe: "processDueEvents ex_env (ex_session Pending) =
      [Event ''s1'' ''call_initiated'' [(''userPhone'', PStr ''+12025550101'')],
       Event ''s1'' ''call_failed'' [(''error'', PStr ''busy'')]]" by blast
  from T f have pf: "processDueEffects ex_env (ex_session Pending) =
     [EventWrite (Event ''s1'' ''call_initiated'' [(''userPhone'', PStr ''+12025550101'')]),
      StatusWrite ''s1'' Active,
      CheckInCallAttempt ''+12025550101'' ''s1'',
      EventWrite (Event ''s1'' ''call_failed'' [(''error'', PStr ''busy'')]),
      StatusWrite ''s1'' Pending]" by blast
  from T have "event_log (checkDueSessions ex_env (ex_world Pending)) =
       event_log (ex_world Pending) @
       concat (map (processDueEvents ex_env) (dueSessions ex_env (ex_world Pending)))" by blast
  then have 3: "event_log (checkDueSessions ex_env (ex_world Pending)) =
     [Event ''s1'' ''call_initiated'' [(''userPhone'', PStr ''+12025550101'')],
      Event ''s1'' ''call_failed'' [(''error'', PStr ''busy'')]]"
    by (simp add: due pe e0)
  from T have "newEffects (ex_world Pending) (checkDueSessions ex_env (ex_world Pending)) =
       concat (map (processDueEffects ex_env) (dueSessions ex_env (ex_world Pending)))" by blast
  then have 4: "newEffects (ex_world Pending) (checkDueSessions ex_env (ex_world Pending)) =
     [EventWrite (Event ''s1'' ''call_initiated'' [(''userPhone'', PStr ''+12025550101'')]),
      StatusWrite ''s1'' Active,
      CheckInCallAttempt ''+12025550101'' ''s1'',
      EventWrite (Event ''s1'' ''call_failed'' [(''error'', PStr ''busy'')]),
      StatusWrite ''s1'' Pending]"
    by (simp add: due pf)
  from T have S: "0 < length (dueSessions ex_env (ex_world Pending)) \<longrightarrow>
        statusOf (tickSuspended ex_env (ex_world Pending) 0)
          (sess_id (dueSessions ex_env (ex_world Pending) ! 0)) = Some Active \<and>
        last (event_log (tickSuspended ex_env (ex_world Pending) 0)) =
          Event (sess_id (dueSessions ex_env (ex_world Pending) ! 0)) ''call_initiated''
            [(''userPhone'', PStr (user_phone (dueSessions ex_env (ex_world Pending) ! 0)))] \<and>
        length (event_log (tickSuspended ex_env (ex_world Pending) 0)) =
          length (event_log (ex_world Pending)) + 2 * 0 + 1" by blast
  then have 5: "statusOf (tickSuspended ex_env (ex_world Pending) 0) ''s1'' = Some Active \<and>
        last (event_log (tickSuspended ex_env (ex_world Pending) 0)) =
          Event ''s1'' ''call_initiated'' [(''userPhone'', PStr ''+12025550101'')] \<and>
        length (event_log (tickSuspended ex_env (ex_world Pending) 0)) = 1"
    by (simp add: due up e0)
  from h1 h2 h3 f 1 2 3 4 5 show ?thesis by (simp add: nw a0)
qed

lemma isRunning_triggerEscalation: "isRunning (triggerEscalation e sid w) = isRunning w"
proof (cases "getSession w sid")
  case None
  then show ?thesis by (simp add: triggerEscalation_None)
next
  case (Some s)
  then show ?thesis by (rule triggerEscalation_Some(3))
qed

lemma isRunning_classifyAndDecide: "isRunning (classifyAndDecide e sid key t w) = isRunning w"
proof -
  obtain c w1 where cw: "classifyDistressIntent e t w = (c, w1)"
    by (cases "classifyDistressIntent e t w")
  then have "isRunning w1 = isRunning w"
    using classifyDistressIntent_fields(4) [of e t w] by simp
  then show ?thesis
    by (simp add: classifyAndDecide_def cw Let_def isRunning_triggerEscalation
        updateSessionStatus_fields logEvent_fields)
qed

lemma isRunning_decide: "isRunning (decide e sid s key t w) = isRunning w"
  by (simp add: decide_def isRunning_classifyAndDecide isRunning_triggerEscalation
      updateSessionStatus_fields logEvent_fields split: verdict.splits)

lemma isRunning_recordingComplete: "isRunning (recordingComplete e req w) = isRunning w"
proof (cases "truthy (query_sessionId req)")
  case False
  then show ?thesis by (simp add: recordingComplete_def)
next
  case True
  show ?thesis
  proof (cases "getSession w (strOr (query_sessionId req) [])")
    case None
    with True show ?thesis by (simp add: recordingComplete_def)
  next
    case (Some s)
    show ?thesis
      by (simp add: recordingComplete_found [OF True Some] isRunning_decide logEvent_fields
          obtainTranscript_fields)
  qed
qed

lemma isRunning_transcriptionWebhook: "isRunning (transcriptionWebhook e req w) = isRunning w"
  by (simp add: transcriptionWebhook_def Let_def isRunning_decide logEvent_fields split: option.splits)

lemma isRunning_sendLocation: "isRunning (snd (sendLocation e req w)) = isRunning w"
  by (simp add: sendLocation_def Let_def fold_locationUpdateContact_fields logEvent_fields
      updateSessionLocation_fields split: option.splits)

text \<open>
  Claim C7. While a tick started in \<open>w\<close> waits for the provider's answer about one of
  its due sessions, the flag \<open>isRunning\<close> is set, and a tick that begins in that state
  returns it unchanged: no status update, no event, no request. More generally a tick that
  begins in any state with the flag set changes nothing, and the callbacks and the late
  location, which may run while the first tick waits, leave the flag set. The flag is
  cleared when the first tick ends.
\<close>

theorem overlapping_tick_dropped:
  assumes "\<not> isRunning w" and "k < length (dueSessions e w)"
  shows "isRunning (tickSuspended e w k) \<and>
         checkDueSessions e' (tickSuspended e w k) = tickSuspended e w k \<and>
         newEffects (tickSuspended e w k) (checkDueSessions e' (tickSuspended e w k)) = [] \<and>
         (\<forall>v. isRunning v \<longrightarrow>
            checkDueSessions e' v = v \<and>
            isRunning (recordingComplete e' rreq v) \<and>
            isRunning (transcriptionWebhook e' treq v) \<and>
            isRunning (snd (sendLocation e' lreq v))) \<and>
         \<not> isRunning (checkDueSessions e w)"
proof -
  have r: "isRunning (tickSuspended e w k)" by (rule isRunning_tickSuspended)
  have g: "\<forall>v. isRunning v \<longrightarrow>
            checkDueSessions e' v = v \<and>
            isRunning (recordingComplete e' rreq v) \<and>
            isRunning (transcriptionWebhook e' treq v) \<and>
            isRunning (snd (sendLocation e' lreq v))"
    by (simp add: checkDueSessions_def isRunning_recordingComplete isRunning_transcriptionWebhook
        isRunning_sendLocation)
  from r g have c: "checkDueSessions e' (tickSuspended e w k) = tickSuspended e w k"
    by blast
  have "\<not> isRunning (checkDueSessions e w)"
    by (rule checkDueSessions_idle(3) [OF assms(1)])
  with r c g show ?thesis by (simp add: newEffects_def)
qed

text \<open>
  Claim C7 at a tick suspended on its first due session.
\<close>

theorem overlapping_tick_dropped_witness:
  "\<not> isRunning (ex_world Pending) \<and>
   0 < length (dueSessions ex_env (ex_world Pending)) \<and>
   statusOf (tickSuspended ex_env (ex_world Pending) 0) ''s1'' = Some Active \<and>
   checkDueSessions ex_env (tickSuspended ex_env (ex_world Pending) 0) =
     tickSuspended ex_env (ex_world Pending) 0"
proof -
  have h1: "\<not> isRunning (ex_world Pending)" by code_simp
  have h2: "0 < length (dueSessions ex_env (ex_world Pending))" by code_simp
  have s: "statusOf (tickSuspended ex_env (ex_world Pending) 0) ''s1'' = Some Active" by code_simp
  from overlapping_tick_dropped [OF h1 h2, of ex_env] h1 h2 s
  show ?thesis by blast
qed

section \<open>Claims about sessions in a terminal status\<close>

lemma callNow_request_sessions: "sessions (snd (callNow_request e sid' w)) = sessions w"
  by (simp add: callNow_request_def initiateCheckInCall_def split: option.splits)

lemma callNow_refused:
  "getSession w sid = Some s \<Longrightarrow> status s \<noteq> Pending \<Longrightarrow> callNow e sid w = (400, w)"
  by (simp add: callNow_def callNow_request_def callNow_resume_def)

lemma statusOf_callNow_resume:
  "statusOf (snd (callNow_resume e c w)) sid = statusOf w sid \<or>
   (\<exists>r m. c = CallNowWaiting r (Inr m) \<and> sess_id r = sid \<and>
      statusOf (snd (callNow_resume e c w)) sid = map_option (\<lambda>_. Active) (statusOf w sid))"
  by (cases c)
     (auto simp: callNow_resume_def statusOf_logEvent statusOf_updateSessionStatus split: sum.splits)

lemma statusOf_callNow:
  "statusOf (snd (callNow e sid' w)) sid = statusOf w sid \<or> statusOf w sid = Some Pending"
proof (cases "getSession w sid'")
  case None
  then show ?thesis by (simp add: callNow_def callNow_request_def callNow_resume_def)
next
  case (Some r)
  show ?thesis
  proof (cases "status r = Pending")
    case False
    with Some show ?thesis by (simp add: callNow_refused)
  next
    case True
    from Some have id: "sess_id r = sid'" by (rule getSession_sess_id)
    show ?thesis
    proof (cases "sid = sid'")
      case True
      with Some \<open>status r = Pending\<close> show ?thesis by (simp add: statusOf_def)
    next
      case False
      obtain c w1 where cw: "callNow_request e sid' w = (c, w1)" by (cases "callNow_request e sid' w")
      from cw Some True have c: "c = CallNowWaiting r (checkInCall_result e (user_phone r) (sess_id r))"
        by (auto simp: callNow_request_def initiateCheckInCall_def)
      from cw have "sessions w1 = sessions w"
        using callNow_request_sessions [of e sid' w] by simp
      then have s1: "statusOf w1 sid = statusOf w sid" by (rule statusOf_cong)
      from statusOf_callNow_resume [of e c w1 sid] c id False
      have "statusOf (snd (callNow_resume e c w1)) sid = statusOf w1 sid" by auto
      then show ?thesis by (simp add: callNow_def cw s1)
    qed
  qed
qed

lemma terminal_handle:
  assumes "\<exists>st. terminal st \<and> statusOf w sid = Some st"
  shows "\<exists>st. terminal st \<and> statusOf (handle r w) sid = Some st"
proof (cases r)
  case (RecordingCompleteRequest e req)
  from statusOf_recordingComplete [of e req w sid] assms terminal_decidedStatus
  show ?thesis unfolding RecordingCompleteRequest by auto
next
  case (TranscriptionRequest e req)
  from statusOf_transcriptionWebhook [of e req w sid] assms
  show ?thesis unfolding TranscriptionRequest by auto
next
  case (SendLocationRequest e req)
  with assms show ?thesis by (simp add: statusOf_sendLocation)
next
  case (CallNowRequest e sid')
  from assms have "statusOf w sid \<noteq> Some Pending" by (auto simp: terminal_def)
  with statusOf_callNow [of e sid' w sid]
  have "statusOf (snd (callNow e sid' w)) sid = statusOf w sid" by simp
  with assms show ?thesis unfolding CallNowRequest by simp
qed

lemma terminal_fold_handle:
  "\<exists>st. terminal st \<and> statusOf w sid = Some st \<Longrightarrow>
   \<exists>st. terminal st \<and> statusOf (fold handle rs w) sid = Some st"
proof (induction rs arbitrary: w)
  case Nil
  then show ?case by simp
next
  case (Cons r rs)
  from Cons.prems have "\<exists>st. terminal st \<and> statusOf (handle r w) sid = Some st"
    by (rule terminal_handle)
  then have "\<exists>st. terminal st \<and> statusOf (fold handle rs (handle r w)) sid = Some st"
    by (rule Cons.IH)
  then show ?case by simp
qed

lemma statusOf_processDue_request_other:
  "sid \<noteq> sess_id r \<Longrightarrow> statusOf (snd (processDue_request e r w)) sid = statusOf w sid"
proof -
  assume ne: "sid \<noteq> sess_id r"
  have "sessions (snd (processDue_request e r w)) =
      sessions (updateSessionStatus e (sess_id r) Active w)"
    by (simp add: processDue_request_fields updateSessionStatus_fields)
  then have "statusOf (snd (processDue_request e r w)) sid =
      statusOf (updateSessionStatus e (sess_id r) Active w) sid"
    by (rule statusOf_cong)
  with ne show ?thesis by (simp add: statusOf_updateSessionStatus)
qed

lemma statusOf_processDue_resume:
  "statusOf (processDue_resume e r (x, w)) sid =
     (case x of
        Inr _ \<Rightarrow> statusOf w sid
      | Inl _ \<Rightarrow> if sid = sess_id r then map_option (\<lambda>_. Pending) (statusOf w sid)
                 else statusOf w sid)"
  by (simp add: processDue_resume_def statusOf_logEvent statusOf_updateSessionStatus
      split: sum.splits)

lemma terminal_processDueInterleaved:
  assumes "\<exists>st. terminal st \<and> statusOf w sid = Some st" and "sid \<noteq> sess_id r"
  shows "\<exists>st. terminal st \<and> statusOf (processDueInterleaved e arriving (k, r) w) sid = Some st"
proof -
  obtain x w1 where pr: "processDue_request e r w = (x, w1)" by (cases "processDue_request e r w")
  then have "statusOf w1 sid = statusOf w sid"
    using statusOf_processDue_request_other [OF assms(2), of e w] by simp
  with assms(1) have "\<exists>st. terminal st \<and> statusOf w1 sid = Some st" by simp
  then have "\<exists>st. terminal st \<and> statusOf (fold handle (arriving k) w1) sid = Some st"
    by (rule terminal_fold_handle)
  moreover have "statusOf (processDue_resume e r (x, fold handle (arriving k) w1)) sid =
      statusOf (fold handle (arriving k) w1) sid"
    using assms(2) by (simp add: statusOf_processDue_resume split: sum.splits)
  ultimately show ?thesis by (simp add: processDueInterleaved_def pr)
qed

lemma terminal_fold_processDueInterleaved:
  assumes "\<exists>st. terminal st \<and> statusOf w sid = Some st"
    and "\<forall>kr\<in>set ks. sess_id (snd kr) \<noteq> sid"
  shows "\<exists>st. terminal st \<and> statusOf (fold (processDueInterleaved e arriving) ks w) sid = Some st"
  using assms
proof (induction ks arbitrary: w)
  case Nil
  then show ?case by simp
next
  case (Cons kr ks)
  obtain k r where kr: "kr = (k, r)" by (cases kr)
  from Cons.prems(2) kr have ne: "sid \<noteq> sess_id r" by auto
  from Cons.prems(1) ne
  have "\<exists>st. terminal st \<and> statusOf (processDueInterleaved e arriving (k, r) w) sid = Some st"
    by (rule terminal_processDueInterleaved)
  moreover from Cons.prems(2) have "\<forall>kr\<in>set ks. sess_id (snd kr) \<noteq> sid" by simp
  ultimately have "\<exists>st. terminal st \<and>
      statusOf (fold (processDueInterleaved e arriving) ks (processDueInterleaved e arriving (k, r) w)) sid
        = Some st"
    by (rule Cons.IH)
  then show ?case by (simp add: kr)
qed

lemma terminal_tickInterleaved:
  assumes d: "distinct (map sess_id (sessions w))"
    and g: "getSession w sid = Some s" and t: "terminal (status s)"
  shows "\<exists>st. terminal st \<and> statusOf (tickInterleaved e arriving w) sid = Some st"
proof (cases "isRunning w")
  case True
  with g t show ?thesis by (auto simp: tickInterleaved_def statusOf_def)
next
  case False
  define w0 where "w0 = w\<lparr>isRunning := True\<rparr>"
  define w1 where "w1 = fold (processDueInterleaved e arriving) (enumerate 0 (dueSessions e w)) w0"
  from t have np: "status s \<noteq> Pending" by (auto simp: terminal_def)
  from g have sm: "s \<in> set (sessions w)" and si: "sess_id s = sid"
    by (simp_all add: getSession_in_set getSession_sess_id)
  have other: "\<forall>kr\<in>set (enumerate 0 (dueSessions e w)). sess_id (snd kr) \<noteq> sid"
  proof
    fix kr assume "kr \<in> set (enumerate 0 (dueSessions e w))"
    then have "snd kr \<in> set (map snd (enumerate 0 (dueSessions e w)))" by (simp only: set_map) simp
    then have "snd kr \<in> set (dueSessions e w)" by (simp only: map_snd_enumerate)
    then have r: "snd kr \<in> set (sessions w)" "status (snd kr) = Pending"
      by (simp_all add: set_dueSessions)
    show "sess_id (snd kr) \<noteq> sid"
    proof
      assume "sess_id (snd kr) = sid"
      with d r(1) sm si have "snd kr = s" by (auto intro: distinct_ids_unique)
      with r(2) np show False by simp
    qed
  qed
  have "statusOf w0 sid = statusOf w sid"
    unfolding w0_def by (rule statusOf_cong) simp
  with g t have "\<exists>st. terminal st \<and> statusOf w0 sid = Some st"
    by (auto simp: statusOf_def)
  then have "\<exists>st. terminal st \<and> statusOf w1 sid = Some st"
    unfolding w1_def using other by (rule terminal_fold_processDueInterleaved)
  moreover have "statusOf (tickInterleaved e arriving w) sid = statusOf w1 sid"
    using False
    by (intro statusOf_cong)
       (simp add: tickInterleaved_def Let_def dueSessions_isRunning w1_def w0_def)
  ultimately show ?thesis by simp
qed

lemma fold_enumerate_snd:
  "fold (\<lambda>kr. f (snd kr)) (enumerate n xs) w = fold f xs w"
  by (induction xs arbitrary: n w) simp_all

lemma tickInterleaved_alone: "tickInterleaved e (\<lambda>_. []) w = checkDueSessions e w"
proof -
  have "processDueInterleaved e (\<lambda>_. []) = (\<lambda>kr. processDue e (snd kr))"
    by (intro ext) (simp add: processDueInterleaved_def processDue_def split: prod.splits)
  then show ?thesis
    by (simp add: tickInterleaved_def checkDueSessions_def Let_def fold_enumerate_snd)
qed

text \<open>
  Claim C2, as stated, fails, in two ways. The callback handlers never read the session's
  status: a recording-complete callback whose transcript holds the escalation word,
  arriving for a session that is already \<open>completed\<close>, sets it to \<open>escalated\<close> and runs
  the ladder. And the scheduler writes the status of the sessions it fetched when the tick
  began without reading them again: of two due sessions, the second is completed by a
  callback while the tick waits for the provider's answer about the first, and the tick
  then sets it to \<open>active\<close>; likewise call-now, which read the session as pending,
  sets it to \<open>active\<close> after a callback completed it during the wait.
\<close>

theorem terminal_callback_counterexample:
  "statusOf (ex_world Completed) ''s1'' = Some Completed \<and>
   statusOf (recordingComplete ex_env (ex_recording (Some ''banana'')) (ex_world Completed)) ''s1''
     = Some Escalated \<and>
   list_ex isNotification
     (trace (recordingComplete ex_env (ex_recording (Some ''banana'')) (ex_world Completed))) \<and>
   map sess_id (dueSessions ex_env (ex_world2 Pending)) = [''s1'', ''s2''] \<and>
   statusOf (fold handle (ex_arriving 0) (tickSuspended ex_env (ex_world2 Pending) 0)) ''s2''
     = Some Completed \<and>
   statusOf (tickInterleaved ex_env ex_arriving (ex_world2 Pending)) ''s2'' = Some Active \<and>
   statusOf (recordingComplete ex_env (ex_recording2 (Some ''pineapple''))
               (snd (callNow_request ex_env ''s2'' (ex_world2 Pending)))) ''s2''
     = Some Completed \<and>
   statusOf (snd (callNow_resume ex_env (fst (callNow_request ex_env ''s2'' (ex_world2 Pending)))
               (recordingComplete ex_env (ex_recording2 (Some ''pineapple''))
                  (snd (callNow_request ex_env ''s2'' (ex_world2 Pending)))))) ''s2''
     = Some Active"
  by code_simp

text \<open>
  Claim C2, amended. A session whose status is terminal (completed or escalated) keeps
  a terminal status under the scheduler tick, call-now, the late location and the
  provider callbacks: a scheduler tick run alone, a call-now request (refused with 400
  when it is for this session) and a late location leave its status as it is; a
  recording-complete or transcription callback leaves it completed or escalated; and a
  scheduler tick that begins in this state leaves it completed or escalated whatever
  callbacks, late locations and call-now requests are handled while the tick waits for
  the provider. The callbacks are not no-ops on such a session: they decide again from
  the transcript, whatever the current status. The protection does not extend to a
  session that becomes terminal after a tick fetched it as due or call-now read it as
  pending: with the row \<open>r\<close> read then, the tick's write of \<open>active\<close> before the call,
  its write of \<open>pending\<close> after a failed call, and call-now's write of \<open>active\<close>
  after the call are made whatever the status has become. Session ids are unique (the
  primary key).
\<close>

theorem terminal_status_stays_terminal:
  assumes "distinct (map sess_id (sessions w))"
    and "getSession w sid = Some s"
    and "terminal (status s)"
  shows "statusOf (checkDueSessions e w) sid = Some (status s) \<and>
         statusOf (snd (sendLocation e lreq w)) sid = Some (status s) \<and>
         (\<exists>st. terminal st \<and> statusOf (recordingComplete e rreq w) sid = Some st) \<and>
         (\<exists>st. terminal st \<and> statusOf (transcriptionWebhook e treq w) sid = Some st) \<and>
         callNow e sid w = (400, w) \<and>
         statusOf (snd (callNow e sid' w)) sid = Some (status s) \<and>
         (\<exists>st. terminal st \<and> statusOf (tickInterleaved e arriving w) sid = Some st) \<and>
         (\<forall>r v x. sess_id r = sid \<and> statusOf v sid \<noteq> None \<longrightarrow>
            statusOf (snd (processDue_request e r v)) sid = Some Active \<and>
            statusOf (processDue_resume e r (Inl x, v)) sid = Some Pending \<and>
            statusOf (snd (callNow_resume e (CallNowWaiting r (Inr x)) v)) sid = Some Active)"
proof -
  from assms(3) have np: "status s \<noteq> Pending" by (auto simp: terminal_def)
  from assms(2) have si: "sess_id s = sid" by (rule getSession_sess_id)
  from assms(2) have st: "statusOf w sid = Some (status s)" by (simp add: statusOf_def)
  from assms(1,2) np have 1: "statusOf (checkDueSessions e w) sid = Some (status s)"
    by (rule statusOf_checkDueSessions_other)
  from st have 2: "statusOf (snd (sendLocation e lreq w)) sid = Some (status s)"
    by (simp add: statusOf_sendLocation)
  from statusOf_recordingComplete [of e rreq w sid] st assms(3) terminal_decidedStatus
  have 3: "\<exists>st. terminal st \<and> statusOf (recordingComplete e rreq w) sid = Some st"
    by auto
  from statusOf_transcriptionWebhook [of e treq w sid] st assms(3)
  have 4: "\<exists>st. terminal st \<and> statusOf (transcriptionWebhook e treq w) sid = Some st"
    by auto
  from assms(2) np have 5: "callNow e sid w = (400, w)" by (rule callNow_refused)
  from st np have "statusOf w sid \<noteq> Some Pending" by simp
  with statusOf_callNow [of e sid' w sid] st
  have 6: "statusOf (snd (callNow e sid' w)) sid = Some (status s)" by simp
  from assms have 7: "\<exists>st. terminal st \<and> statusOf (tickInterleaved e arriving w) sid = Some st"
    by (rule terminal_tickInterleaved)
  have 8: "statusOf (snd (processDue_request e r v)) sid = Some Active \<and>
           statusOf (processDue_resume e r (Inl x, v)) sid = Some Pending \<and>
           statusOf (snd (callNow_resume e (CallNowWaiting r (Inr x)) v)) sid = Some Active"
    if "sess_id r = sid" "statusOf v sid \<noteq> None" for r v x
    using that statusOf_processDue_request [of e r v]
    by (auto simp: statusOf_processDue_resume callNow_resume_def statusOf_logEvent
        statusOf_updateSessionStatus)
  from 1 2 3 4 5 6 7 8 show ?thesis by blast
qed

text \<open>
  The amended claim C2 at a store with two sessions, the first pending and due, the
  second escalated: the tick calls the first; the second stays escalated under each
  operation run alone, and when the callback with the safe word arrives for it while the
  tick waits, it is completed after the tick.
\<close>

theorem terminal_status_stays_terminal_witness:
  "distinct (map sess_id (sessions (ex_world2 Escalated))) \<and>
   getSession (ex_world2 Escalated) ''s2'' = Some (ex_session2 Escalated) \<and>
   terminal (status (ex_session2 Escalated)) \<and>
   map sess_id (dueSessions ex_env (ex_world2 Escalated)) = [''s1''] \<and>
   statusOf (checkDueSessions ex_env (ex_world2 Escalated)) ''s2'' = Some Escalated \<and>
   statusOf (snd (sendLocation ex_env ex_location (ex_world2 Escalated))) ''s2'' = Some Escalated \<and>
   callNow ex_env ''s2'' (ex_world2 Escalated) = (400, ex_world2 Escalated) \<and>
   statusOf (snd (callNow ex_env ''s1'' (ex_world2 Escalated))) ''s2'' = Some Escalated \<and>
   (\<exists>st. terminal st \<and>
      statusOf (recordingComplete ex_env (ex_recording2 (Some ''pineapple'')) (ex_world2 Escalated)) ''s2''
        = Some st) \<and>
   (\<exists>st. terminal st \<and>
      statusOf (transcriptionWebhook ex_env ex_transcription (ex_world2 Escalated)) ''s2'' = Some st) \<and>
   statusOf (tickInterleaved ex_env ex_arriving (ex_world2 Escalated)) ''s2'' = Some Completed \<and>
   terminal Completed"
proof -
  have h1: "distinct (map sess_id (sessions (ex_world2 Escalated)))" by code_simp
  have h2: "getSession (ex_world2 Escalated) ''s2'' = Some (ex_session2 Escalated)" by code_simp
  have h3: "terminal (status (ex_session2 Escalated))" by code_simp
  have h4: "status (ex_session2 Escalated) = Escalated" by code_simp
  have due: "map sess_id (dueSessions ex_env (ex_world2 Escalated)) = [''s1'']" by code_simp
  have tc: "terminal Completed" by (simp add: terminal_def)
  have ev: "statusOf (tickInterleaved ex_env ex_arriving (ex_world2 Escalated)) ''s2'' = Some Completed"
    by code_simp
  note T = terminal_status_stays_terminal [OF h1 h2 h3, of ex_env ex_location
      "ex_recording2 (Some ''pineapple'')" ex_transcription "''s1''" ex_arriving, unfolded h4]
  from T have "\<exists>st. terminal st \<and>
      statusOf (tickInterleaved ex_env ex_arriving (ex_world2 Escalated)) ''s2'' = Some st"
    by blast
  with ev have 7: "statusOf (tickInterleaved ex_env ex_arriving (ex_world2 Escalated)) ''s2'' = Some Completed \<and>
      terminal Completed" by simp
  from T have 1: "statusOf (checkDueSessions ex_env (ex_world2 Escalated)) ''s2'' = Some Escalated"
    and 2: "statusOf (snd (sendLocation ex_env ex_location (ex_world2 Escalated))) ''s2'' = Some Escalated"
    and 3: "\<exists>st. terminal st \<and>
      statusOf (recordingComplete ex_env (ex_recording2 (Some ''pineapple'')) (ex_world2 Escalated)) ''s2''
        = Some st"
    and 4: "\<exists>st. terminal st \<and>
      statusOf (transcriptionWebhook ex_env ex_transcription (ex_world2 Escalated)) ''s2'' = Some st"
    and 5: "callNow ex_env ''s2'' (ex_world2 Escalated) = (400, ex_world2 Escalated)"
    and 6: "statusOf (snd (callNow ex_env ''s1'' (ex_world2 Escalated))) ''s2'' = Some Escalated"
    by blast+
  from h1 h2 h3 due 1 2 3 4 5 6 7 show ?thesis by blast
qed

end
